theory Spec2Isabelle
  imports Complex_Main
begin

section \<open>MACDS: memory store, evaluation system, worker wrapper and orchestrator\<close>

text \<open>
  A shallow embedding of the core of the multi-agent coding development system:
  \<^verbatim>\<open>macds/core/memory.py\<close>, \<^verbatim>\<open>macds/core/evaluation.py\<close>, \<^verbatim>\<open>macds/core/contracts.py\<close>,
  \<^verbatim>\<open>macds/agents/base.py\<close> and \<^verbatim>\<open>macds/core/orchestrator.py\<close>.

  Conventions of the embedding.
  \<^item> Python \<^verbatim>\<open>float\<close> values (confidence, scores, autonomy, strengths) are the real numbers
    they stand for; rounding is not modelled.
  \<^item> Python \<^verbatim>\<open>int\<close> counters are \<open>int\<close>.
  \<^item> A \<^verbatim>\<open>datetime\<close> is a real number of seconds; every \<^verbatim>\<open>datetime.now()\<close> reads the
    clock field of the state that is passed along.
  \<^item> Mutation is explicit state passing; an exception is the \<open>Inl\<close> branch of a sum.
  \<^item> Writing the JSON files (\<^verbatim>\<open>_save\<close>) is not modelled: the in-memory dictionaries are
    the state.
\<close>

subsection \<open>Memory entries (\<^verbatim>\<open>core/memory.py\<close>)\<close>

datatype MemoryScope = WORKING | PROJECT | SKILL | FAILURE

datatype DecayPolicy = FAST | MEDIUM | SLOW | VERY_SLOW | PERMANENT

text \<open>The half-life table in seconds; \<^verbatim>\<open>float('inf')\<close> of the permanent policy is \<open>None\<close>.\<close>

fun DECAY_RATES :: "DecayPolicy \<Rightarrow> real option" where
  "DECAY_RATES FAST = Some 3600"
| "DECAY_RATES MEDIUM = Some 86400"
| "DECAY_RATES SLOW = Some 604800"
| "DECAY_RATES VERY_SLOW = Some 2592000"
| "DECAY_RATES PERMANENT = None"

fun SCOPE_DECAY_DEFAULTS :: "MemoryScope \<Rightarrow> DecayPolicy" where
  "SCOPE_DECAY_DEFAULTS WORKING = FAST"
| "SCOPE_DECAY_DEFAULTS PROJECT = SLOW"
| "SCOPE_DECAY_DEFAULTS SKILL = VERY_SLOW"
| "SCOPE_DECAY_DEFAULTS FAILURE = MEDIUM"

text \<open>
  The contents that the core itself stores (the \<^verbatim>\<open>content\<close> field is \<^verbatim>\<open>Any\<close> in the source):
  the task note of \<^verbatim>\<open>BaseAgent.execute\<close>, the failure note of \<^verbatim>\<open>_record_failure\<close>, the
  workflow summary of \<^verbatim>\<open>run_workflow\<close>, and anything else a worker may store.
\<close>

datatype content =
    TaskNote string string
  | FailureNote string string real
  | WorkflowNote string bool "string list" "string list"
  | OtherNote string

record MemoryEntry =
  entry_id :: string
  content :: content
  scope :: MemoryScope
  source :: string
  confidence :: real
  decay_policy :: DecayPolicy
  created_at :: real
  last_accessed :: real
  access_count :: int
  tags :: "string list"
  related_entries :: "string list"

text \<open>
  \<^verbatim>\<open>MemoryEntry.get_current_strength\<close>, with the reading of the clock as the argument
  \<open>now\<close>. The power \<^verbatim>\<open>0.5 ** x\<close> on floats is \<open>powr\<close> on the reals. With the infinite
  half-life the quotient is zero and the factor one; the early return makes that branch
  unreachable.
\<close>

definition get_current_strength :: "MemoryEntry \<Rightarrow> real \<Rightarrow> real" where
  "get_current_strength e now =
     (if decay_policy e = PERMANENT then confidence e
      else
        let elapsed = now - last_accessed e;
            decay_factor = (case DECAY_RATES (decay_policy e) of
                              Some half_life \<Rightarrow> 0.5 powr (elapsed / half_life)
                            | None \<Rightarrow> 1);
            access_boost = min 2.0 (1.0 + real_of_int (access_count e) * 0.1)
        in min 1.0 (confidence e * decay_factor * access_boost))"

definition access :: "MemoryEntry \<Rightarrow> real \<Rightarrow> MemoryEntry" where
  "access e now = e\<lparr>last_accessed := now, access_count := access_count e + 1\<rparr>"

definition is_expired :: "MemoryEntry \<Rightarrow> real \<Rightarrow> real \<Rightarrow> bool" where
  "is_expired e threshold now = (get_current_strength e now < threshold)"

subsection \<open>The memory store (\<^verbatim>\<open>MemoryStore\<close>, \<^verbatim>\<open>AgentMemory\<close>)\<close>

text \<open>
  The store is the dictionary of its entries. \<^verbatim>\<open>_generate_id\<close> (a truncated SHA-256 of the
  JSON text of the content) is a field of the store, so that every result holds for any
  such function.
\<close>

record MemoryStore =
  entries :: "string \<rightharpoonup> MemoryEntry"
  generate_id :: "content \<Rightarrow> string"

definition store ::
  "MemoryStore \<Rightarrow> content \<Rightarrow> MemoryScope \<Rightarrow> string \<Rightarrow> real \<Rightarrow> DecayPolicy option
     \<Rightarrow> string list \<Rightarrow> real \<Rightarrow> string \<times> MemoryStore" where
  "store ms c sc src conf dp tgs now =
     (let eid = generate_id ms c;
          pol = (case dp of None \<Rightarrow> SCOPE_DECAY_DEFAULTS sc | Some p \<Rightarrow> p);
          entry = \<lparr>entry_id = eid, content = c, scope = sc, source = src, confidence = conf,
                   decay_policy = pol, created_at = now, last_accessed = now,
                   access_count = 0, tags = tgs, related_entries = []\<rparr>
      in (eid, ms\<lparr>entries := (entries ms)(eid \<mapsto> entry)\<rparr>))"

text \<open>\<^verbatim>\<open>AgentMemory.remember\<close> and \<^verbatim>\<open>AgentMemory.learn_from_failure\<close> of the worker \<open>a\<close>.\<close>

definition remember ::
  "string \<Rightarrow> MemoryStore \<Rightarrow> content \<Rightarrow> MemoryScope \<Rightarrow> real \<Rightarrow> string list \<Rightarrow> real
     \<Rightarrow> string \<times> MemoryStore" where
  "remember a ms c sc conf tgs now = store ms c sc a conf None tgs now"

definition learn_from_failure ::
  "string \<Rightarrow> MemoryStore \<Rightarrow> content \<Rightarrow> real \<Rightarrow> string \<times> MemoryStore" where
  "learn_from_failure a ms failure_info now =
     remember a ms failure_info FAILURE 1.0 [''failure'', ''learning''] now"

subsection \<open>Scorecards (\<^verbatim>\<open>core/evaluation.py\<close>)\<close>

datatype ScoreCategory = CORRECTNESS | EFFICIENCY | COMPLIANCE | COST | STABILITY

fun category_value :: "ScoreCategory \<Rightarrow> string" where
  "category_value CORRECTNESS = ''correctness''"
| "category_value EFFICIENCY = ''efficiency''"
| "category_value COMPLIANCE = ''compliance''"
| "category_value COST = ''cost''"
| "category_value STABILITY = ''stability''"

record ScoreEntry =
  category :: ScoreCategory
  score :: real
  timestamp :: real
  task_id :: "string option"
  score_notes :: string

record AgentScorecard =
  agent_name :: string
  scores :: "string \<rightharpoonup> ScoreEntry list"
  total_tasks :: int
  successful_tasks :: int
  failed_tasks :: int
  escalations :: int
  autonomy_level :: real

text \<open>\<^verbatim>\<open>AgentScorecard(agent_name=name)\<close>: the defaults of the dataclass.\<close>

definition new_scorecard :: "string \<Rightarrow> AgentScorecard" where
  "new_scorecard a = \<lparr>agent_name = a, scores = Map.empty, total_tasks = 0,
     successful_tasks = 0, failed_tasks = 0, escalations = 0, autonomy_level = 1.0\<rparr>"

definition add_score ::
  "AgentScorecard \<Rightarrow> ScoreCategory \<Rightarrow> real \<Rightarrow> string option \<Rightarrow> string \<Rightarrow> real \<Rightarrow> AgentScorecard" where
  "add_score sc cat s tid nts now =
     (let key = category_value cat;
          old = (case scores sc key of None \<Rightarrow> [] | Some l \<Rightarrow> l)
      in sc\<lparr>scores := (scores sc)(key \<mapsto>
            old @ [\<lparr>category = cat, score = s, timestamp = now, task_id = tid, score_notes = nts\<rparr>])\<rparr>)"

text \<open>\<^verbatim>\<open>timedelta(days=days)\<close> is \<open>days * 86400\<close> seconds.\<close>

definition get_average :: "AgentScorecard \<Rightarrow> ScoreCategory \<Rightarrow> int \<Rightarrow> real \<Rightarrow> real" where
  "get_average sc cat days now =
     (case scores sc (category_value cat) of
        None \<Rightarrow> 50.0
      | Some l \<Rightarrow>
          let cutoff = now - real_of_int days * 86400;
              recent = filter (\<lambda>s. timestamp s > cutoff) l
          in if recent = [] then 50.0
             else sum_list (map score recent) / real (length recent))"

definition weights :: "(ScoreCategory \<times> real) list" where
  "weights = [(CORRECTNESS, 0.35), (EFFICIENCY, 0.15), (COMPLIANCE, 0.25),
              (COST, 0.10), (STABILITY, 0.15)]"

text \<open>The loop of \<^verbatim>\<open>get_overall_score\<close> accumulates the pair \<open>(total, total_weight)\<close>.\<close>

definition get_overall_score :: "AgentScorecard \<Rightarrow> real \<Rightarrow> real" where
  "get_overall_score sc now =
     (let (total, total_weight) =
            foldl (\<lambda>(total, total_weight) (cat, weight).
                     (total + get_average sc cat 30 now * weight, total_weight + weight))
                  (0.0, 0.0) weights
      in if total_weight > 0 then total / total_weight else 50.0)"

definition get_success_rate :: "AgentScorecard \<Rightarrow> real" where
  "get_success_rate sc =
     (if total_tasks sc = 0 then 1.0
      else real_of_int (successful_tasks sc) / real_of_int (total_tasks sc))"

definition record_success :: "AgentScorecard \<Rightarrow> AgentScorecard" where
  "record_success sc =
     sc\<lparr>total_tasks := total_tasks sc + 1, successful_tasks := successful_tasks sc + 1\<rparr>"

definition record_failure :: "AgentScorecard \<Rightarrow> AgentScorecard" where
  "record_failure sc =
     sc\<lparr>total_tasks := total_tasks sc + 1, failed_tasks := failed_tasks sc + 1\<rparr>"

definition record_escalation :: "AgentScorecard \<Rightarrow> AgentScorecard" where
  "record_escalation sc = sc\<lparr>escalations := escalations sc + 1\<rparr>"

definition adjust_autonomy :: "AgentScorecard \<Rightarrow> real \<Rightarrow> AgentScorecard" where
  "adjust_autonomy sc now =
     (let overall = get_overall_score sc now;
          success_rate = get_success_rate sc
      in if overall \<ge> 80 \<and> success_rate \<ge> 0.9
         then sc\<lparr>autonomy_level := min 1.0 (autonomy_level sc + 0.1)\<rparr>
         else if overall < 50 \<or> success_rate < 0.7
         then sc\<lparr>autonomy_level := max 0.2 (autonomy_level sc - 0.2)\<rparr>
         else sc)"

subsection \<open>The evaluation system (\<^verbatim>\<open>EvaluationSystem\<close>)\<close>

type_synonym EvaluationSystem = "string \<rightharpoonup> AgentScorecard"

text \<open>\<^verbatim>\<open>get_scorecard\<close> creates the scorecard when the worker has none.\<close>

definition get_scorecard :: "EvaluationSystem \<Rightarrow> string \<Rightarrow> AgentScorecard \<times> EvaluationSystem" where
  "get_scorecard ev a =
     (case ev a of
        None \<Rightarrow> (new_scorecard a, ev(a \<mapsto> new_scorecard a))
      | Some sc \<Rightarrow> (sc, ev))"

text \<open>
  \<^verbatim>\<open>record_task_result\<close>. The dictionary \<open>scores\<close> is the list of its items in iteration
  order. The scorecard is updated in place, that is, written back under its name.
\<close>

definition record_task_result ::
  "EvaluationSystem \<Rightarrow> string \<Rightarrow> bool \<Rightarrow> (ScoreCategory \<times> real) list \<Rightarrow> string option \<Rightarrow> real
     \<Rightarrow> EvaluationSystem" where
  "record_task_result ev a succ scs tid now =
     (let (scorecard, ev1) = get_scorecard ev a;
          sc1 = (if succ then record_success scorecard else record_failure scorecard);
          sc2 = foldl (\<lambda>sc (cat, s). add_score sc cat s tid [] now) sc1 scs;
          sc3 = adjust_autonomy sc2 now
      in ev1(a \<mapsto> sc3))"

subsection \<open>Contracts (\<^verbatim>\<open>core/contracts.py\<close>)\<close>

record Violation =
  rule_id :: string
  severity :: string
  message :: string
  location :: "string option"
  suggested_fix :: "string option"

text \<open>
  An envelope is immutable and \<^verbatim>\<open>validate()\<close> takes no argument, so the envelope carries
  the list that its \<^verbatim>\<open>validate()\<close> returns (empty for the base classes). The fields of
  the stage (requirements, components, files and so on) are the opaque payload.
  \<open>in_type_name\<close> is \<^verbatim>\<open>type(input_data).__name__\<close>.
\<close>

record 'p ContractInput =
  in_request_id :: string
  in_type_name :: string
  in_validate :: "Violation list"
  in_payload :: 'p

record 'q ContractOutput =
  out_request_id :: string
  out_validate :: "Violation list"
  out_payload :: 'q

text \<open>
  The exceptions that reach the handlers: \<^verbatim>\<open>ContractViolationError\<close>, the \<^verbatim>\<open>ValueError\<close> of
  an unknown agent, and any other exception of a worker. Each carries its message,
  which is what \<^verbatim>\<open>str(e)\<close> returns.
\<close>

datatype exec_error = ContractViolationError string | ValueError string | WorkerError string

fun error_str :: "exec_error \<Rightarrow> string" where
  "error_str (ContractViolationError m) = m"
| "error_str (ValueError m) = m"
| "error_str (WorkerError m) = m"

text \<open>
  The text of a list of messages inside an f-string is the \<^verbatim>\<open>repr\<close> of the list: the \<^verbatim>\<open>repr\<close>
  of each message, separated by a comma and a space, in brackets. The \<^verbatim>\<open>repr\<close> of a string
  takes single quotes, or double quotes when the string holds a single quote and no
  double quote; it escapes the backslash, the chosen quote, tab, line feed and carriage
  return, and writes the other control characters as \<^verbatim>\<open>\xhh\<close>. A string is a list of bytes
  here, and the bytes of a character outside ASCII are kept as they are (Python escapes
  such a character only when it is not printable).
\<close>

definition hex_digit :: "nat \<Rightarrow> char" where
  "hex_digit n = (if n < 10 then char_of (48 + n) else char_of (87 + n))"

definition py_quote :: "string \<Rightarrow> char" where
  "py_quote s = (if CHR 0x27 \<in> set s \<and> CHR 0x22 \<notin> set s then CHR 0x22 else CHR 0x27)"

definition py_escape :: "char \<Rightarrow> char \<Rightarrow> string" where
  "py_escape q c =
     (if c = q \<or> c = CHR 0x5C then [CHR 0x5C, c]
      else if c = CHR 0x09 then [CHR 0x5C, CHR ''t'']
      else if c = CHR 0x0A then [CHR 0x5C, CHR ''n'']
      else if c = CHR 0x0D then [CHR 0x5C, CHR ''r'']
      else if (of_char c :: nat) < 32 \<or> (of_char c :: nat) = 127
      then [CHR 0x5C, CHR ''x'', hex_digit (of_char c div 16), hex_digit (of_char c mod 16)]
      else [c])"

definition py_repr :: "string \<Rightarrow> string" where
  "py_repr s = (let q = py_quote s in [q] @ concat (map (py_escape q) s) @ [q])"

fun join_comma :: "string list \<Rightarrow> string" where
  "join_comma [] = []"
| "join_comma [x] = x"
| "join_comma (x # y # ys) = x @ '', '' @ join_comma (y # ys)"

definition py_list_repr :: "string list \<Rightarrow> string" where
  "py_list_repr ms = ''['' @ join_comma (map py_repr ms) @ '']''"

definition has_error :: "Violation list \<Rightarrow> bool" where
  "has_error vs = list_ex (\<lambda>v. severity v = ''error'') vs"

subsection \<open>The worker wrapper (\<^verbatim>\<open>agents/base.py\<close>)\<close>

text \<open>
  The two stores that every worker and the orchestrator share, and the clock.
\<close>

record stores =
  memory_store :: MemoryStore
  evaluation :: EvaluationSystem
  clock :: real

text \<open>
  A worker: its name, its authority level and its \<^verbatim>\<open>_execute_impl\<close>, which may read and
  write the stores, let time pass, and return an output or raise.
\<close>

record ('p, 'q) Agent =
  name :: string
  authority_level :: int
  execute_impl :: "'p ContractInput \<Rightarrow> stores \<Rightarrow> (exec_error + 'q ContractOutput) \<times> stores"

text \<open>
  \<^verbatim>\<open>_record_success\<close> and \<^verbatim>\<open>_record_failure\<close>. The attributes \<^verbatim>\<open>_current_task_id\<close> and
  \<^verbatim>\<open>_task_start_time\<close> that \<^verbatim>\<open>execute\<close> sets first are the arguments \<open>tid\<close> and \<open>start\<close>.
\<close>

definition agent_record_success :: "('p, 'q) Agent \<Rightarrow> string \<Rightarrow> real \<Rightarrow> stores \<Rightarrow> stores" where
  "agent_record_success ag tid start st =
     (let duration = clock st - start
      in st\<lparr>evaluation := record_task_result (evaluation st) (name ag) True
               [(CORRECTNESS, 100.0), (EFFICIENCY, min 100 (100 - (duration / 60) * 10))]
               (Some tid) (clock st)\<rparr>)"

definition agent_record_failure :: "('p, 'q) Agent \<Rightarrow> string \<Rightarrow> string \<Rightarrow> stores \<Rightarrow> stores" where
  "agent_record_failure ag tid reason st =
     (let ev = record_task_result (evaluation st) (name ag) False [(CORRECTNESS, 0.0)]
                 (Some tid) (clock st);
          (eid, ms) = learn_from_failure (name ag) (memory_store st)
                        (FailureNote tid reason (clock st)) (clock st)
      in st\<lparr>evaluation := ev, memory_store := ms\<rparr>)"

text \<open>
  \<^verbatim>\<open>BaseAgent.execute\<close>. The input check raises before the \<^verbatim>\<open>try\<close> block; inside it, an
  output with an error is recorded and raised, and the handler \<^verbatim>\<open>except Exception\<close>
  records what it catches and raises it again.
\<close>

definition execute ::
  "('p, 'q) Agent \<Rightarrow> 'p ContractInput \<Rightarrow> stores \<Rightarrow> (exec_error + 'q ContractOutput) \<times> stores" where
  "execute ag input_data st =
     (let tid = in_request_id input_data;
          start = clock st;
          input_violations = in_validate input_data
      in if has_error input_violations
         then (Inl (ContractViolationError
                 (''Input contract violation: '' @ py_list_repr (map message input_violations))), st)
         else
           let (eid, ms) = remember (name ag) (memory_store st)
                             (TaskNote tid (in_type_name input_data)) WORKING 1.0
                             [''task'', ''current''] (clock st);
               st1 = st\<lparr>memory_store := ms\<rparr>
           in case execute_impl ag input_data st1 of
                (Inr output_data, st2) \<Rightarrow>
                  let output_violations = out_validate output_data
                  in if has_error output_violations
                     then
                       let st3 = agent_record_failure ag tid ''output_validation_failed'' st2;
                           e = ContractViolationError
                                 (''Output contract violation: '' @
                                    py_list_repr (map message output_violations));
                           st4 = agent_record_failure ag tid (error_str e) st3
                       in (Inl e, st4)
                     else (Inr output_data, agent_record_success ag tid start st2)
              | (Inl e, st2) \<Rightarrow> (Inl e, agent_record_failure ag tid (error_str e) st2))"

subsection \<open>Workflow tasks and failure routing (\<^verbatim>\<open>core/orchestrator.py\<close>)\<close>

datatype WorkflowStage =
  REQUIREMENTS | ARCHITECTURE | IMPLEMENTATION | REVIEW | BUILD_TEST | INTEGRATION | FINAL_APPROVAL

fun stage_value :: "WorkflowStage \<Rightarrow> string" where
  "stage_value REQUIREMENTS = ''requirements''"
| "stage_value ARCHITECTURE = ''architecture''"
| "stage_value IMPLEMENTATION = ''implementation''"
| "stage_value REVIEW = ''review''"
| "stage_value BUILD_TEST = ''build_test''"
| "stage_value INTEGRATION = ''integration''"
| "stage_value FINAL_APPROVAL = ''final_approval''"

datatype TaskStatus = PENDING | RUNNING | COMPLETED | FAILED | BLOCKED | ESCALATED

record ('p, 'q) WorkflowTask =
  wt_id :: string
  stage :: WorkflowStage
  task_agent_name :: string
  input_data :: "'p ContractInput option"
  output_data :: "'q ContractOutput option"
  status :: TaskStatus
  dependencies :: "string list"
  task_created_at :: real
  started_at :: "real option"
  completed_at :: "real option"
  error :: "string option"
  retry_count :: int
  max_retries :: int

type_synonym Workflow = "(WorkflowStage \<times> string \<times> WorkflowStage list) list"

definition DEFAULT_WORKFLOW :: Workflow where
  "DEFAULT_WORKFLOW =
     [(REQUIREMENTS, ''ProductAgent'', []),
      (ARCHITECTURE, ''ArchitectAgent'', [REQUIREMENTS]),
      (IMPLEMENTATION, ''ImplementationAgent'', [ARCHITECTURE]),
      (REVIEW, ''ReviewerAgent'', [IMPLEMENTATION]),
      (BUILD_TEST, ''BuildTestAgent'', [REVIEW]),
      (INTEGRATION, ''IntegratorAgent'', [BUILD_TEST]),
      (FINAL_APPROVAL, ''ArchitectAgent'', [INTEGRATION])]"

fun FAILURE_ROUTING :: "WorkflowStage \<Rightarrow> WorkflowStage option" where
  "FAILURE_ROUTING REVIEW = Some IMPLEMENTATION"
| "FAILURE_ROUTING BUILD_TEST = Some IMPLEMENTATION"
| "FAILURE_ROUTING INTEGRATION = Some IMPLEMENTATION"
| "FAILURE_ROUTING FINAL_APPROVAL = Some ARCHITECTURE"
| "FAILURE_ROUTING REQUIREMENTS = None"
| "FAILURE_ROUTING ARCHITECTURE = None"
| "FAILURE_ROUTING IMPLEMENTATION = None"

text \<open>
  The run context is a dictionary. Its keys \<^verbatim>\<open>user_request\<close> and \<^verbatim>\<open>failure_context\<close> are
  fields; the keys that \<^verbatim>\<open>_update_context\<close> writes hold opaque values of the outputs.
\<close>

record FailureContext =
  failed_stage :: string
  fc_error :: "string option"
  fc_retry_count :: int

record 'v RunContext =
  user_request :: string
  failure_context :: "FailureContext option"
  stage_data :: "string \<rightharpoonup> 'v"

type_synonym ('p, 'q) Tasks = "WorkflowStage \<rightharpoonup> ('p, 'q) WorkflowTask"

text \<open>
  \<^verbatim>\<open>Orchestrator._handle_failure\<close>: the result is the returned flag with the task
  dictionary and the context as the call leaves them. \<open>task\<close> is the task of the failing
  stage.
\<close>

definition handle_failure ::
  "WorkflowStage \<Rightarrow> ('p, 'q) WorkflowTask \<Rightarrow> ('p, 'q) Tasks \<Rightarrow> 'v RunContext
     \<Rightarrow> bool \<times> ('p, 'q) Tasks \<times> 'v RunContext" where
  "handle_failure stg task tasks ctx =
     (if retry_count task \<ge> max_retries task then (False, tasks, ctx)
      else
        case FAILURE_ROUTING stg of
          None \<Rightarrow> (False, tasks, ctx)
        | Some target_stage \<Rightarrow>
            (case tasks target_stage of
               Some target_task \<Rightarrow>
                 let target_task' = target_task\<lparr>status := PENDING,
                                       retry_count := retry_count target_task + 1\<rparr>
                 in (True, tasks(target_stage \<mapsto> target_task'),
                     ctx\<lparr>failure_context := Some
                        \<lparr>failed_stage = stage_value stg, fc_error = error task,
                         fc_retry_count = retry_count target_task'\<rparr>\<rparr>)
             | None \<Rightarrow> (False, tasks, ctx)))"

subsection \<open>Conflicts\<close>

text \<open>The evidence records and the resolution are dictionaries; they are opaque texts here.\<close>

record ConflictRecord =
  conflict_id :: string
  topic :: string
  agents_involved :: "string list"
  evidence :: "string list"
  decision_owner :: string
  resolution :: "string option"
  conflict_created_at :: real
  resolved_at :: "real option"

subsection \<open>The orchestrator\<close>

text \<open>
  The state of an \<^verbatim>\<open>Orchestrator\<close>: the shared stores, the agents by name, the escalation
  list and the tasks of each workflow run (the list \<^verbatim>\<open>list(tasks.values())\<close> holds the
  task objects of the run's dictionary, which is what is kept here). \<^verbatim>\<open>_prepare_input\<close>
  builds an opaque payload and is a field; \<open>output_attr\<close> reads an attribute of an
  output, and neither is taken to raise.
\<close>

record ('p, 'q, 'v) Orchestrator =
  orch_stores :: stores
  agents :: "string \<rightharpoonup> ('p, 'q) Agent"
  orch_escalations :: "ConflictRecord list"
  active_workflows :: "string \<rightharpoonup> ('p, 'q) Tasks"
  prepare_input ::
    "WorkflowStage \<Rightarrow> 'v RunContext \<Rightarrow> (WorkflowStage \<rightharpoonup> 'q ContractOutput) \<Rightarrow> 'p ContractInput"
  output_attr :: "'q ContractOutput \<Rightarrow> string \<Rightarrow> 'v"

definition update_context ::
  "('p, 'q, 'v) Orchestrator \<Rightarrow> WorkflowStage \<Rightarrow> 'q ContractOutput \<Rightarrow> 'v RunContext
     \<Rightarrow> 'v RunContext" where
  "update_context orch stg out ctx =
     (if stg = REQUIREMENTS
      then ctx\<lparr>stage_data := (stage_data ctx)
             (''requirements'' \<mapsto> output_attr orch out ''requirements'',
              ''constraints'' \<mapsto> output_attr orch out ''constraints'')\<rparr>
      else if stg = ARCHITECTURE
      then ctx\<lparr>stage_data := (stage_data ctx)
             (''architecture'' \<mapsto> output_attr orch out ''components'',
              ''invariants'' \<mapsto> output_attr orch out ''invariants'')\<rparr>
      else ctx)"

subsection \<open>Running a workflow\<close>

text \<open>The local variables of \<^verbatim>\<open>run_workflow\<close> that its loop updates, and the shared stores.\<close>

record ('p, 'q, 'v) RunState =
  tasks :: "('p, 'q) Tasks"
  completed_stages :: "WorkflowStage list"
  failed_stages :: "WorkflowStage list"
  outputs :: "WorkflowStage \<rightharpoonup> 'q ContractOutput"
  run_context :: "'v RunContext"
  run_stores :: stores

definition task_key :: "string \<Rightarrow> WorkflowStage \<Rightarrow> string" where
  "task_key workflow_id s = workflow_id @ ''-'' @ stage_value s"

text \<open>
  The dependency check \<^verbatim>\<open>all(tasks[s].status == COMPLETED for s, _, _ in workflow_def if
  f"{workflow_id}-{s.value}" in task.dependencies)\<close>. It stops at the first task that is
  not completed; \<open>None\<close> is the \<^verbatim>\<open>KeyError\<close> of a stage without a task.
\<close>

fun deps_met ::
  "string \<Rightarrow> ('p, 'q) Tasks \<Rightarrow> string list \<Rightarrow> Workflow \<Rightarrow> bool option" where
  "deps_met workflow_id tsk deps [] = Some True"
| "deps_met workflow_id tsk deps ((s, a, d) # rest) =
     (if task_key workflow_id s \<in> set deps
      then (case tsk s of
              None \<Rightarrow> None
            | Some t \<Rightarrow> if status t = COMPLETED then deps_met workflow_id tsk deps rest
                        else Some False)
      else deps_met workflow_id tsk deps rest)"

text \<open>
  One iteration of the loop over \<^verbatim>\<open>workflow_def\<close>. The result is \<open>None\<close> for a \<^verbatim>\<open>KeyError\<close>;
  otherwise the flag says whether the iteration ended in \<^verbatim>\<open>break\<close>.
\<close>

definition run_stage ::
  "('p, 'q, 'v) Orchestrator \<Rightarrow> Workflow \<Rightarrow> string \<Rightarrow> WorkflowStage \<times> string \<times> WorkflowStage list
     \<Rightarrow> ('p, 'q, 'v) RunState \<Rightarrow> (bool \<times> ('p, 'q, 'v) RunState) option" where
  "run_stage orch workflow_def workflow_id entry st =
     (case entry of (stg, agent_nm, ds) \<Rightarrow>
      case tasks st stg of
        None \<Rightarrow> None
      | Some task \<Rightarrow>
         (case deps_met workflow_id (tasks st) (dependencies task) workflow_def of
            None \<Rightarrow> None
          | Some False \<Rightarrow>
              Some (False, st\<lparr>tasks := (tasks st)(stg \<mapsto> task\<lparr>status := BLOCKED\<rparr>),
                              failed_stages := failed_stages st @ [stg]\<rparr>)
          | Some True \<Rightarrow>
              let inp = prepare_input orch stg (run_context st) (outputs st);
                  task1 = task\<lparr>input_data := Some inp, status := RUNNING,
                              started_at := Some (clock (run_stores st))\<rparr>;
                  (res, sto) =
                     (case agents orch agent_nm of
                        None \<Rightarrow> (Inl (ValueError (''Agent not found: '' @ agent_nm)), run_stores st)
                      | Some agent \<Rightarrow> execute agent inp (run_stores st))
              in case res of
                   Inr out \<Rightarrow>
                     Some (False,
                       st\<lparr>tasks := (tasks st)(stg \<mapsto> task1\<lparr>output_data := Some out,
                                       status := COMPLETED, completed_at := Some (clock sto)\<rparr>),
                          completed_stages := completed_stages st @ [stg],
                          outputs := (outputs st)(stg \<mapsto> out),
                          run_context := update_context orch stg out (run_context st),
                          run_stores := sto\<rparr>)
                 | Inl e \<Rightarrow>
                     let task2 = task1\<lparr>status := FAILED, error := Some (error_str e),
                                       completed_at := Some (clock sto)\<rparr>;
                         (handled, tasks3, ctx3) =
                            handle_failure stg task2 ((tasks st)(stg \<mapsto> task2)) (run_context st)
                     in if \<not> handled
                        then Some (True, st\<lparr>tasks := tasks3,
                                           failed_stages := failed_stages st @ [stg],
                                           run_context := ctx3, run_stores := sto\<rparr>)
                        else Some (False, st\<lparr>tasks := tasks3, run_context := ctx3,
                                            run_stores := sto\<rparr>)))"

text \<open>
  The loop: the stages in the declared order, each once, until a \<^verbatim>\<open>break\<close>. The flag of
  the result says whether the loop was left by \<^verbatim>\<open>break\<close>.
\<close>

fun run_stages ::
  "('p, 'q, 'v) Orchestrator \<Rightarrow> Workflow \<Rightarrow> string \<Rightarrow> Workflow \<Rightarrow> ('p, 'q, 'v) RunState
     \<Rightarrow> (bool \<times> ('p, 'q, 'v) RunState) option" where
  "run_stages orch workflow_def workflow_id [] st = Some (False, st)"
| "run_stages orch workflow_def workflow_id (entry # rest) st =
     (case run_stage orch workflow_def workflow_id entry st of
        None \<Rightarrow> None
      | Some (brk, st') \<Rightarrow>
          if brk then Some (True, st') else run_stages orch workflow_def workflow_id rest st')"

record ('q) WorkflowResult =
  workflow_id :: string
  success :: bool
  stages_completed :: "WorkflowStage list"
  stages_failed :: "WorkflowStage list"
  result_outputs :: "string \<rightharpoonup> 'q ContractOutput"
  duration_seconds :: real
  result_escalations :: "ConflictRecord list"

definition all_stages :: "WorkflowStage list" where
  "all_stages = [REQUIREMENTS, ARCHITECTURE, IMPLEMENTATION, REVIEW, BUILD_TEST, INTEGRATION,
                 FINAL_APPROVAL]"

text \<open>The dictionary \<^verbatim>\<open>{s.value: o for s, o in outputs.items()}\<close>.\<close>

definition outputs_by_value ::
  "(WorkflowStage \<rightharpoonup> 'q ContractOutput) \<Rightarrow> (string \<rightharpoonup> 'q ContractOutput)" where
  "outputs_by_value outs k =
     (case filter (\<lambda>s. stage_value s = k) all_stages of
        [] \<Rightarrow> None
      | s # ss \<Rightarrow> outs s)"

text \<open>The task dictionary that \<^verbatim>\<open>run_workflow\<close> builds: one task per stage of the definition.\<close>

definition new_task ::
  "string \<Rightarrow> real \<Rightarrow> WorkflowStage \<Rightarrow> string \<Rightarrow> WorkflowStage list \<Rightarrow> ('p, 'q) WorkflowTask" where
  "new_task wid now stg agent_nm ds =
     \<lparr>wt_id = task_key wid stg, stage = stg, task_agent_name = agent_nm,
      input_data = None, output_data = None, status = PENDING,
      dependencies = map (task_key wid) ds, task_created_at = now,
      started_at = None, completed_at = None, error = None,
      retry_count = 0, max_retries = 3\<rparr>"

definition add_task ::
  "string \<Rightarrow> real \<Rightarrow> ('p, 'q) Tasks \<Rightarrow> WorkflowStage \<times> string \<times> WorkflowStage list
     \<Rightarrow> ('p, 'q) Tasks" where
  "add_task wid now m entry =
     (case entry of (stg, agent_nm, ds) \<Rightarrow> m(stg \<mapsto> new_task wid now stg agent_nm ds))"

definition create_tasks :: "string \<Rightarrow> real \<Rightarrow> Workflow \<Rightarrow> ('p, 'q) Tasks" where
  "create_tasks wid now workflow_def = foldl (add_task wid now) Map.empty workflow_def"

text \<open>
  \<^verbatim>\<open>run_workflow\<close>. \<open>wid\<close> is the identifier drawn from \<^verbatim>\<open>uuid4\<close>. An omitted or empty
  \<open>workflow\<close> is replaced by the default one (\<^verbatim>\<open>workflow or DEFAULT_WORKFLOW\<close>). The state
  before the loop holds a pending task for each stage, no completed or failed stage, no
  output and the context \<^verbatim>\<open>{"user_request": user_request}\<close>. The result is \<open>None\<close> when
  the call raises.
\<close>

definition effective_workflow :: "Workflow option \<Rightarrow> Workflow" where
  "effective_workflow workflow =
     (case workflow of None \<Rightarrow> DEFAULT_WORKFLOW
      | Some w \<Rightarrow> if w = [] then DEFAULT_WORKFLOW else w)"

definition initial_state ::
  "('p, 'q, 'v) Orchestrator \<Rightarrow> string \<Rightarrow> string \<Rightarrow> Workflow \<Rightarrow> ('p, 'q, 'v) RunState" where
  "initial_state orch request wid workflow_def =
     \<lparr>tasks = create_tasks wid (clock (orch_stores orch)) workflow_def,
      completed_stages = [], failed_stages = [], outputs = Map.empty,
      run_context = \<lparr>user_request = request, failure_context = None, stage_data = Map.empty\<rparr>,
      run_stores = orch_stores orch\<rparr>"

definition run_workflow ::
  "('p, 'q, 'v) Orchestrator \<Rightarrow> string \<Rightarrow> Workflow option \<Rightarrow> string
     \<Rightarrow> ('q WorkflowResult \<times> ('p, 'q, 'v) Orchestrator) option" where
  "run_workflow orch request workflow wid =
     (let workflow_def = effective_workflow workflow;
          start_time = clock (orch_stores orch)
      in case run_stages orch workflow_def wid workflow_def
                (initial_state orch request wid workflow_def) of
           None \<Rightarrow> None
         | Some (brk, st) \<Rightarrow>
             let sto = run_stores st;
                 duration = clock sto - start_time;
                 (eid, ms) = store (memory_store sto)
                    (WorkflowNote wid (failed_stages st = [])
                       (map stage_value (completed_stages st))
                       (map stage_value (failed_stages st)))
                    PROJECT ''Orchestrator'' 1.0 None [''workflow'', ''execution''] (clock sto)
             in Some (\<lparr>workflow_id = wid, success = (failed_stages st = []),
                        stages_completed = completed_stages st,
                        stages_failed = failed_stages st,
                        result_outputs = outputs_by_value (outputs st),
                        duration_seconds = duration,
                        result_escalations = orch_escalations orch\<rparr>,
                      orch\<lparr>orch_stores := sto\<lparr>memory_store := ms\<rparr>,
                           active_workflows := (active_workflows orch)(wid \<mapsto> tasks st)\<rparr>))"

subsection \<open>Escalation\<close>

text \<open>
  \<^verbatim>\<open>Orchestrator.escalate_conflict\<close>; \<open>cid\<close> is the identifier drawn from \<^verbatim>\<open>uuid4\<close>.
\<close>

definition escalate_conflict ::
  "('p, 'q, 'v) Orchestrator \<Rightarrow> string \<Rightarrow> string list \<Rightarrow> string list \<Rightarrow> string
     \<Rightarrow> ConflictRecord \<times> ('p, 'q, 'v) Orchestrator" where
  "escalate_conflict orch tpc involved evid cid =
     (let max_authority =
            foldl (\<lambda>m agent_nm.
                     case agents orch agent_nm of
                       Some agent \<Rightarrow> if authority_level agent > m then authority_level agent else m
                     | None \<Rightarrow> m)
                  0 involved;
          owner = (if max_authority < 10 then ''ArchitectAgent'' else ''ArchitectAgent'');
          conflict = \<lparr>conflict_id = cid, topic = tpc, agents_involved = involved,
                      evidence = evid, decision_owner = owner, resolution = None,
                      conflict_created_at = clock (orch_stores orch), resolved_at = None\<rparr>
      in (conflict, orch\<lparr>orch_escalations := orch_escalations orch @ [conflict]\<rparr>))"

text \<open>
  The loop of \<^verbatim>\<open>Orchestrator.resolve_conflict\<close> over the escalation list: the first record
  with the identifier is updated and \<^verbatim>\<open>True\<close> is returned.
\<close>

fun resolve_in :: "ConflictRecord list \<Rightarrow> string \<Rightarrow> string \<Rightarrow> real \<Rightarrow> bool \<times> ConflictRecord list" where
  "resolve_in [] cid res now = (False, [])"
| "resolve_in (c # cs) cid res now =
     (if conflict_id c = cid
      then (True, c\<lparr>resolution := Some res, resolved_at := Some now\<rparr> # cs)
      else (let (found, cs') = resolve_in cs cid res now in (found, c # cs')))"

definition resolve_conflict ::
  "('p, 'q, 'v) Orchestrator \<Rightarrow> string \<Rightarrow> string \<Rightarrow> bool \<times> ('p, 'q, 'v) Orchestrator" where
  "resolve_conflict orch cid res =
     (let (found, cs) = resolve_in (orch_escalations orch) cid res (clock (orch_stores orch))
      in (found, orch\<lparr>orch_escalations := cs\<rparr>))"

subsection \<open>Call sequences and sample data\<close>

text \<open>
  A finite sequence of \<^verbatim>\<open>record_task_result\<close> calls on an evaluation system, each call
  with its arguments and the reading of the clock.
\<close>

type_synonym task_call = "string \<times> bool \<times> (ScoreCategory \<times> real) list \<times> string option \<times> real"

definition record_calls :: "EvaluationSystem \<Rightarrow> task_call list \<Rightarrow> EvaluationSystem" where
  "record_calls ev calls =
     foldl (\<lambda>ev (a, succ, scs, tid, now). record_task_result ev a succ scs tid now) ev calls"

definition in_bounds :: "AgentScorecard \<Rightarrow> bool" where
  "in_bounds sc = (0.2 \<le> autonomy_level sc \<and> autonomy_level sc \<le> 1.0)"

definition sample_entry :: "real \<Rightarrow> DecayPolicy \<Rightarrow> MemoryEntry" where
  "sample_entry c p =
     \<lparr>entry_id = ''test'', content = OtherNote ''test'', scope = WORKING, source = ''test'',
      confidence = c, decay_policy = p, created_at = 0, last_accessed = 0, access_count = 0,
      tags = [], related_entries = []\<rparr>"

definition sample_scorecard :: "string \<Rightarrow> real \<Rightarrow> AgentScorecard" where
  "sample_scorecard a lvl = (new_scorecard a)\<lparr>autonomy_level := lvl\<rparr>"

definition failing_calls :: "task_call list" where
  "failing_calls = [(''TestAgent'', False, [(CORRECTNESS, 0)], None, 0),
                    (''TestAgent'', False, [(CORRECTNESS, 0)], None, 60)]"

text \<open>
  The scores of a call that rates correctness and compliance with at least 95 and gives
  no negative score, and a sequence of successful calls for one worker with such scores.
\<close>

definition good_scores :: "(ScoreCategory \<times> real) list \<Rightarrow> bool" where
  "good_scores scs =
     (list_ex (\<lambda>(c, s). c = CORRECTNESS) scs \<and> list_ex (\<lambda>(c, s). c = COMPLIANCE) scs \<and>
      list_all (\<lambda>(c, s). 0 \<le> s \<and> (if c = CORRECTNESS \<or> c = COMPLIANCE then 95 \<le> s else True)) scs)"

definition good_calls :: "string \<Rightarrow> task_call list \<Rightarrow> bool" where
  "good_calls a calls =
     list_all (\<lambda>(a', succ, scs, tid, now). a' = a \<and> succ \<and> good_scores scs) calls"

definition five_good_calls :: "task_call list" where
  "five_good_calls =
     map (\<lambda>t. (''GoodAgent'', True, [(CORRECTNESS, 95), (COMPLIANCE, 95)], None, t))
       [0, 1, 2, 3, 4]"

text \<open>Invariants of a scorecard along such a sequence, used in the proofs below.\<close>

definition entries_ok :: "AgentScorecard \<Rightarrow> bool" where
  "entries_ok sc =
     (\<forall>k l. scores sc k = Some l \<longrightarrow>
        (\<forall>e\<in>set l. 0 \<le> score e \<and> (k = ''correctness'' \<or> k = ''compliance'' \<longrightarrow> 95 \<le> score e)))"

definition has_entry_at :: "AgentScorecard \<Rightarrow> ScoreCategory \<Rightarrow> real \<Rightarrow> bool" where
  "has_entry_at sc cat now =
     (\<exists>l e. scores sc (category_value cat) = Some l \<and> e \<in> set l \<and> timestamp e = now)"

definition good_card :: "AgentScorecard \<Rightarrow> bool" where
  "good_card sc = (autonomy_level sc = 1 \<and> successful_tasks sc = total_tasks sc \<and> entries_ok sc)"

text \<open>Sample stores, envelopes and workers for the concrete runs below.\<close>

definition sample_store :: MemoryStore where
  "sample_store = \<lparr>entries = Map.empty,
     generate_id = (\<lambda>c. case c of
        TaskNote t i \<Rightarrow> ''task-'' @ t
      | FailureNote t r ts \<Rightarrow> ''failure-'' @ t @ ''-'' @ r
      | WorkflowNote w s cs fs \<Rightarrow> ''workflow-'' @ w
      | OtherNote x \<Rightarrow> ''other-'' @ x)\<rparr>"

definition sample_stores :: stores where
  "sample_stores = \<lparr>memory_store = sample_store, evaluation = Map.empty, clock = 0\<rparr>"

definition sample_violation :: Violation where
  "sample_violation = \<lparr>rule_id = ''BUILD-001'', severity = ''error'', message = ''Build failed'',
     location = None, suggested_fix = None\<rparr>"

definition sample_input :: "Violation list \<Rightarrow> unit ContractInput" where
  "sample_input vs = \<lparr>in_request_id = ''req-1'', in_type_name = ''BuildTestInput'',
     in_validate = vs, in_payload = ()\<rparr>"

definition sample_output :: "Violation list \<Rightarrow> unit ContractOutput" where
  "sample_output vs = \<lparr>out_request_id = ''req-1'', out_validate = vs, out_payload = ()\<rparr>"

text \<open>A worker that returns a fixed output, and one that raises.\<close>

definition returning_agent :: "string \<Rightarrow> int \<Rightarrow> unit ContractOutput \<Rightarrow> (unit, unit) Agent" where
  "returning_agent n lvl out = \<lparr>name = n, authority_level = lvl,
     execute_impl = (\<lambda>inp st. (Inr out, st))\<rparr>"

definition raising_agent :: "string \<Rightarrow> int \<Rightarrow> exec_error \<Rightarrow> (unit, unit) Agent" where
  "raising_agent n lvl e = \<lparr>name = n, authority_level = lvl,
     execute_impl = (\<lambda>inp st. (Inl e, st))\<rparr>"

text \<open>The scorecard that \<^verbatim>\<open>get_scorecard\<close> returns for a worker.\<close>

definition scorecard_of :: "stores \<Rightarrow> string \<Rightarrow> AgentScorecard" where
  "scorecard_of st a = fst (get_scorecard (evaluation st) a)"

definition sample_agents :: "string \<rightharpoonup> (unit, unit) Agent" where
  "sample_agents =
     [''ProductAgent'' \<mapsto> returning_agent ''ProductAgent'' 9 (sample_output []),
      ''ArchitectAgent'' \<mapsto> returning_agent ''ArchitectAgent'' 10 (sample_output []),
      ''ImplementationAgent'' \<mapsto> returning_agent ''ImplementationAgent'' 5 (sample_output []),
      ''ReviewerAgent'' \<mapsto> returning_agent ''ReviewerAgent'' 7 (sample_output [])]"

definition sample_orch :: "(unit, unit, unit) Orchestrator" where
  "sample_orch =
     \<lparr>orch_stores = sample_stores, agents = sample_agents, orch_escalations = [],
      active_workflows = Map.empty,
      prepare_input = (\<lambda>stg ctx outs. sample_input []),
      output_attr = (\<lambda>out k. ())\<rparr>"

definition sample_conflict :: "string option \<Rightarrow> real option \<Rightarrow> ConflictRecord" where
  "sample_conflict res rat =
     \<lparr>conflict_id = ''c1'', topic = ''Design disagreement'',
      agents_involved = [''ProductAgent'', ''ImplementationAgent''], evidence = [''Test''],
      decision_owner = ''ArchitectAgent'', resolution = res, conflict_created_at = 0,
      resolved_at = rat\<rparr>"

text \<open>
  The stores after the first statement of \<^verbatim>\<open>execute\<close> past the input check: the task is
  noted in the working memory.
\<close>

definition task_noted :: "('p, 'q) Agent \<Rightarrow> 'p ContractInput \<Rightarrow> stores \<Rightarrow> stores" where
  "task_noted ag inp st =
     st\<lparr>memory_store := snd (remember (name ag) (memory_store st)
           (TaskNote (in_request_id inp) (in_type_name inp)) WORKING 1.0
           [''task'', ''current''] (clock st))\<rparr>"

definition bad_output_agent :: "(unit, unit) Agent" where
  "bad_output_agent = returning_agent ''BuildTestAgent'' 8 (sample_output [sample_violation])"

definition crashing_agent :: "(unit, unit) Agent" where
  "crashing_agent = raising_agent ''BuildTestAgent'' 8 (WorkerError ''boom'')"


text \<open>An orchestrator whose only conflict is already resolved, at clock reading 5.\<close>

definition resolved_orch :: "(unit, unit, unit) Orchestrator" where
  "resolved_orch = sample_orch\<lparr>orch_escalations := [sample_conflict (Some ''first'') (Some 0)],
                               orch_stores := sample_stores\<lparr>clock := 5\<rparr>\<rparr>"


text \<open>
  Named parts of the loop body of \<^verbatim>\<open>run_workflow\<close>: the dispatch to the agent of a stage
  (the \<^verbatim>\<open>ValueError\<close> of an unknown agent is raised inside the \<^verbatim>\<open>try\<close> block), the task as
  it is marked before the dispatch, and the task as the handler marks it.
\<close>

definition dispatch ::
  "('p, 'q, 'v) Orchestrator \<Rightarrow> string \<Rightarrow> 'p ContractInput \<Rightarrow> stores
     \<Rightarrow> (exec_error + 'q ContractOutput) \<times> stores" where
  "dispatch orch agent_nm inp sto =
     (case agents orch agent_nm of
        None \<Rightarrow> (Inl (ValueError (''Agent not found: '' @ agent_nm)), sto)
      | Some agent \<Rightarrow> execute agent inp sto)"

definition running_task ::
  "('p, 'q, 'v) Orchestrator \<Rightarrow> WorkflowStage \<Rightarrow> ('p, 'q, 'v) RunState \<Rightarrow> ('p, 'q) WorkflowTask
     \<Rightarrow> ('p, 'q) WorkflowTask" where
  "running_task orch stg st task =
     task\<lparr>input_data := Some (prepare_input orch stg (run_context st) (outputs st)),
          status := RUNNING, started_at := Some (clock (run_stores st))\<rparr>"

definition failed_task ::
  "('p, 'q) WorkflowTask \<Rightarrow> exec_error \<Rightarrow> stores \<Rightarrow> ('p, 'q) WorkflowTask" where
  "failed_task task1 e sto =
     task1\<lparr>status := FAILED, error := Some (error_str e), completed_at := Some (clock sto)\<rparr>"

text \<open>
  Failure routing can recover the first failure of a stage in a run when the stage has
  a routing target and the target is a stage of the workflow.
\<close>

definition routable :: "WorkflowStage \<Rightarrow> Workflow \<Rightarrow> bool" where
  "routable stg wdef =
     (case FAILURE_ROUTING stg of None \<Rightarrow> False | Some tg \<Rightarrow> tg \<in> fst ` set wdef)"

text \<open>The status of a stage's task as the orchestrator keeps it after a run.\<close>

definition final_status ::
  "('p, 'q, 'v) Orchestrator \<Rightarrow> string \<Rightarrow> WorkflowStage \<Rightarrow> TaskStatus option" where
  "final_status orch wid stg =
     (case active_workflows orch wid of
        None \<Rightarrow> None
      | Some tks \<Rightarrow> map_option status (tks stg))"

text \<open>
  Sample runs: an orchestrator whose product and reviewer agents return outputs that
  fail validation, two workflows, and the tasks and context of a routing step.
\<close>

definition error_violation :: "string \<Rightarrow> string \<Rightarrow> Violation" where
  "error_violation rid msg = \<lparr>rule_id = rid, severity = ''error'', message = msg,
     location = None, suggested_fix = None\<rparr>"

definition failing_orch :: "(unit, unit, unit) Orchestrator" where
  "failing_orch = sample_orch\<lparr>agents := sample_agents
     (''ProductAgent'' \<mapsto> returning_agent ''ProductAgent'' 9
        (sample_output [error_violation ''REQ-001'' ''Requirements cannot be empty'']),
      ''ReviewerAgent'' \<mapsto> returning_agent ''ReviewerAgent'' 7
        (sample_output [error_violation ''REV-001'' ''Review output is invalid'']))\<rparr>"

definition two_stage_workflow :: Workflow where
  "two_stage_workflow =
     [(REQUIREMENTS, ''ProductAgent'', []),
      (ARCHITECTURE, ''ArchitectAgent'', [REQUIREMENTS])]"

definition review_first_workflow :: Workflow where
  "review_first_workflow =
     [(REVIEW, ''ReviewerAgent'', []),
      (BUILD_TEST, ''BuildTestAgent'', [REVIEW]),
      (IMPLEMENTATION, ''ImplementationAgent'', [])]"

definition review_failed_task :: "(unit, unit) WorkflowTask" where
  "review_failed_task =
     (new_task ''wf1'' 0 REVIEW ''ReviewerAgent'' [IMPLEMENTATION])
       \<lparr>status := FAILED, error := Some ''Review output is invalid''\<rparr>"

definition implementation_task :: "int \<Rightarrow> (unit, unit) WorkflowTask" where
  "implementation_task n =
     (new_task ''wf1'' 0 IMPLEMENTATION ''ImplementationAgent'' [ARCHITECTURE])
       \<lparr>status := COMPLETED, retry_count := n\<rparr>"

definition routing_tasks :: "int \<Rightarrow> (unit, unit) Tasks" where
  "routing_tasks n = [REVIEW \<mapsto> review_failed_task, IMPLEMENTATION \<mapsto> implementation_task n]"

definition sample_context :: "unit RunContext" where
  "sample_context = \<lparr>user_request = ''Create a calculator'', failure_context = None,
     stage_data = Map.empty\<rparr>"

definition implement_review_workflow :: Workflow where
  "implement_review_workflow =
     [(IMPLEMENTATION, ''ImplementationAgent'', []),
      (REVIEW, ''ReviewerAgent'', [IMPLEMENTATION])]"

definition review_only_tasks :: "(unit, unit) Tasks" where
  "review_only_tasks = [REVIEW \<mapsto> review_failed_task]"

definition review_detour_workflow :: Workflow where
  "review_detour_workflow =
     [(REVIEW, ''ReviewerAgent'', []),
      (IMPLEMENTATION, ''ProductAgent'', []),
      (BUILD_TEST, ''BuildTestAgent'', [REVIEW])]"


section \<open>Properties\<close>

subsection \<open>Memory strength\<close>

lemma half_life_positive:
  assumes "decay_policy e \<noteq> PERMANENT"
  obtains h where "DECAY_RATES (decay_policy e) = Some h" and "0 < h"
  using assms by (cases "decay_policy e") auto

lemma strength_mono:
  assumes "0 \<le> confidence e" and "0 \<le> access_count e" and "t1 \<le> t2"
  shows "get_current_strength e t2 \<le> get_current_strength e t1"
proof (cases "decay_policy e = PERMANENT")
  case True
  then show ?thesis by (simp add: get_current_strength_def)
next
  case False
  then obtain h where h: "DECAY_RATES (decay_policy e) = Some h" "0 < h"
    by (rule half_life_positive)
  let ?boost = "min 2.0 (1.0 + real_of_int (access_count e) * 0.1)"
  have "(t1 - last_accessed e) / h \<le> (t2 - last_accessed e) / h"
    using assms(3) h(2) by (simp add: divide_right_mono)
  then have "0.5 powr ((t2 - last_accessed e) / h) \<le> (0.5::real) powr ((t1 - last_accessed e) / h)"
    by (simp add: powr_mono')
  moreover have "0 \<le> ?boost"
    using assms(2) by simp
  ultimately have
    "confidence e * 0.5 powr ((t2 - last_accessed e) / h) * ?boost
       \<le> confidence e * 0.5 powr ((t1 - last_accessed e) / h) * ?boost"
    using assms(1) by (simp add: mult_left_mono mult_right_mono)
  then show ?thesis
    using False h(1) by (simp add: get_current_strength_def Let_def min_le_iff_disj)
qed

lemma strength_at_creation:
  "access_count e = 0 \<Longrightarrow>
     get_current_strength e (last_accessed e) =
       (if decay_policy e = PERMANENT then confidence e else min 1 (confidence e))"
  by (cases "decay_policy e") (simp_all add: get_current_strength_def)

text \<open>
  C5, as the code has it. For an entry with a confidence of at least 0 and an access count
  of at least 0, the strength does not grow while the time since the last access grows
  and the access count stays as it is. With an access count of 0 and no time elapsed the
  strength is the confidence capped at 1.0 (the confidence itself under the permanent
  policy): it is 1.0 for the default confidence 1.0, and less for a smaller confidence.
\<close>

theorem strength_decays_between_accesses:
  assumes "0 \<le> confidence e" and "0 \<le> access_count e" and "t1 \<le> t2"
  shows "get_current_strength e t2 \<le> get_current_strength e t1 \<and>
         (access_count e = 0 \<longrightarrow>
            get_current_strength e (last_accessed e) =
              (if decay_policy e = PERMANENT then confidence e else min 1 (confidence e)))"
  using assms strength_mono strength_at_creation by blast

theorem strength_decays_between_accesses_witness:
  "get_current_strength (sample_entry 1 FAST) 7200 \<le> get_current_strength (sample_entry 1 FAST) 0 \<and>
   get_current_strength (sample_entry 1 FAST) 0 = 1"
  using strength_decays_between_accesses [of "sample_entry 1 FAST" 0 7200]
  by (simp add: sample_entry_def)

text \<open>
  The claim C5 as it is written fails: an entry with confidence 0.5, never accessed, has
  strength 0.5 at the moment of its creation, not 1.0.
\<close>

theorem strength_not_one_counterexample:
  "access_count (sample_entry (1/2) FAST) = 0 \<and>
   get_current_strength (sample_entry (1/2) FAST) (last_accessed (sample_entry (1/2) FAST)) \<noteq> 1"
  by (simp add: sample_entry_def get_current_strength_def)

text \<open>
  C6. An entry under the permanent policy has its confidence as its strength, whatever
  the time and whatever its access count.
\<close>

theorem permanent_strength_is_confidence:
  "decay_policy e = PERMANENT \<Longrightarrow> get_current_strength e now = confidence e"
  by (simp add: get_current_strength_def)

theorem permanent_strength_is_confidence_witness:
  "get_current_strength (sample_entry (3/4) PERMANENT\<lparr>access_count := 7\<rparr>) 1000000 = 3/4"
  using permanent_strength_is_confidence [of "sample_entry (3/4) PERMANENT\<lparr>access_count := 7\<rparr>" 1000000]
  by (simp add: sample_entry_def)

subsection \<open>Autonomy bounds\<close>

lemma add_score_fields [simp]:
  "total_tasks (add_score sc cat s tid nts now) = total_tasks sc"
  "successful_tasks (add_score sc cat s tid nts now) = successful_tasks sc"
  "failed_tasks (add_score sc cat s tid nts now) = failed_tasks sc"
  "autonomy_level (add_score sc cat s tid nts now) = autonomy_level sc"
  by (simp_all add: add_score_def Let_def)

lemma add_scores_fields [simp]:
  "total_tasks (foldl (\<lambda>sc (cat, s). add_score sc cat s tid nts now) sc scs) = total_tasks sc"
  "successful_tasks (foldl (\<lambda>sc (cat, s). add_score sc cat s tid nts now) sc scs) = successful_tasks sc"
  "failed_tasks (foldl (\<lambda>sc (cat, s). add_score sc cat s tid nts now) sc scs) = failed_tasks sc"
  "autonomy_level (foldl (\<lambda>sc (cat, s). add_score sc cat s tid nts now) sc scs) = autonomy_level sc"
  by (induction scs arbitrary: sc; auto)+

lemma adjust_autonomy_bounds: "in_bounds sc \<Longrightarrow> in_bounds (adjust_autonomy sc now)"
  by (auto simp: in_bounds_def adjust_autonomy_def Let_def min_def max_def)

lemma record_task_result_other:
  "b \<noteq> a \<Longrightarrow> record_task_result ev a succ scs tid now b = ev b"
  by (auto simp: record_task_result_def get_scorecard_def Let_def split: option.splits)

lemma record_task_result_same:
  "record_task_result ev a succ scs tid now a =
     Some (adjust_autonomy
        (foldl (\<lambda>sc (cat, s). add_score sc cat s tid [] now)
           (let sc = (case ev a of None \<Rightarrow> new_scorecard a | Some sc \<Rightarrow> sc)
            in if succ then record_success sc else record_failure sc) scs) now)"
  by (auto simp: record_task_result_def get_scorecard_def Let_def split: option.splits)

lemma record_task_result_bounds:
  assumes "ev b = Some sc" and "in_bounds sc"
  shows "\<exists>sc'. record_task_result ev a succ scs tid now b = Some sc' \<and> in_bounds sc'"
proof (cases "b = a")
  case False
  then show ?thesis using assms by (simp add: record_task_result_other)
next
  case True
  have "in_bounds (foldl (\<lambda>sc (cat, s). add_score sc cat s tid [] now)
           (if succ then record_success sc else record_failure sc) scs)"
    using assms(2) by (simp add: in_bounds_def record_success_def record_failure_def)
  then show ?thesis
    using True assms(1) by (simp add: record_task_result_same adjust_autonomy_bounds)
qed

lemma record_calls_bounds:
  "ev b = Some sc \<Longrightarrow> in_bounds sc \<Longrightarrow>
     \<exists>sc'. record_calls ev calls b = Some sc' \<and> in_bounds sc'"
proof (induction calls arbitrary: ev sc)
  case Nil
  then show ?case by (simp add: record_calls_def)
next
  case (Cons c calls)
  obtain a succ scs tid now where c: "c = (a, succ, scs, tid, now)"
    by (cases c) auto
  obtain sc1 where "record_task_result ev a succ scs tid now b = Some sc1" "in_bounds sc1"
    using record_task_result_bounds Cons.prems by blast
  then have "\<exists>sc'. record_calls (record_task_result ev a succ scs tid now) calls b = Some sc'
                 \<and> in_bounds sc'"
    by (rule Cons.IH)
  then show ?case by (simp add: record_calls_def c)
qed

text \<open>
  C3. A scorecard of the evaluation system whose autonomy level lies in [0.2, 1.0] still
  has its autonomy level in [0.2, 1.0] after any finite sequence of
  \<^verbatim>\<open>record_task_result\<close> calls (for this or any other worker, with any scores and at any
  times), each of which ends in \<^verbatim>\<open>adjust_autonomy\<close>.
\<close>

theorem autonomy_level_stays_in_bounds:
  assumes "ev a = Some sc" and "0.2 \<le> autonomy_level sc" and "autonomy_level sc \<le> 1.0"
  shows "\<exists>sc'. record_calls ev calls a = Some sc' \<and>
               0.2 \<le> autonomy_level sc' \<and> autonomy_level sc' \<le> 1.0"
  using record_calls_bounds [of ev a sc calls] assms by (simp add: in_bounds_def)


theorem autonomy_level_stays_in_bounds_witness:
  "\<exists>sc'. record_calls [''TestAgent'' \<mapsto> sample_scorecard ''TestAgent'' (1/2)] failing_calls
            ''TestAgent'' = Some sc' \<and>
         0.2 \<le> autonomy_level sc' \<and> autonomy_level sc' \<le> 1.0"
  using autonomy_level_stays_in_bounds
    [of "[''TestAgent'' \<mapsto> sample_scorecard ''TestAgent'' (1/2)]" "''TestAgent''"
        "sample_scorecard ''TestAgent'' (1/2)" failing_calls]
  by (simp add: sample_scorecard_def new_scorecard_def)

subsection \<open>Autonomy of a fresh scorecard\<close>

lemma category_value_inj [simp]: "category_value c = category_value c' \<longleftrightarrow> c = c'"
  by (cases c; cases c'; simp)

lemma category_value_corr [simp]:
  "category_value c = ''correctness'' \<longleftrightarrow> c = CORRECTNESS"
  "category_value c = ''compliance'' \<longleftrightarrow> c = COMPLIANCE"
  by (cases c; simp)+

lemma overall_unfold:
  "get_overall_score sc now =
     (get_average sc CORRECTNESS 30 now * 0.35 + get_average sc EFFICIENCY 30 now * 0.15
      + get_average sc COMPLIANCE 30 now * 0.25 + get_average sc COST 30 now * 0.10
      + get_average sc STABILITY 30 now * 0.15)"
  by (simp add: get_overall_score_def weights_def)

lemma sum_list_lower:
  "(\<forall>x\<in>set xs. b \<le> f x) \<Longrightarrow> b * real (length xs) \<le> sum_list (map f xs)"
  by (induction xs) (auto simp: algebra_simps)

lemma mean_lower:
  assumes "xs \<noteq> []" and "\<forall>x\<in>set xs. b \<le> f x"
  shows "b \<le> sum_list (map f xs) / real (length xs)"
proof -
  have "0 < real (length xs)" using assms(1) by simp
  then show ?thesis using sum_list_lower[OF assms(2)] by (simp add: pos_le_divide_eq)
qed

lemma get_average_nonneg:
  assumes "entries_ok sc"
  shows "0 \<le> get_average sc cat 30 now"
proof (cases "scores sc (category_value cat)")
  case None
  then show ?thesis by (simp add: get_average_def)
next
  case (Some l)
  let ?recent = "filter (\<lambda>s. timestamp s > now - real_of_int 30 * 86400) l"
  have "\<forall>e\<in>set ?recent. 0 \<le> score e"
    using assms Some by (auto simp: entries_ok_def)
  then have "?recent \<noteq> [] \<Longrightarrow> 0 \<le> sum_list (map score ?recent) / real (length ?recent)"
    by (intro mean_lower) auto
  then show ?thesis using Some by (auto simp: get_average_def Let_def)
qed

lemma get_average_high:
  assumes "entries_ok sc" and "has_entry_at sc cat now" and "cat = CORRECTNESS \<or> cat = COMPLIANCE"
  shows "95 \<le> get_average sc cat 30 now"
proof -
  from assms(2) obtain l e where l: "scores sc (category_value cat) = Some l"
    and e: "e \<in> set l" "timestamp e = now"
    by (auto simp: has_entry_at_def)
  let ?recent = "filter (\<lambda>s. timestamp s > now - real_of_int 30 * 86400) l"
  have "e \<in> set ?recent" using e by simp
  then have ne: "?recent \<noteq> []" by (metis empty_iff empty_set)
  have "\<forall>x\<in>set ?recent. 95 \<le> score x"
    using assms(1,3) l by (auto simp: entries_ok_def)
  with ne have "95 \<le> sum_list (map score ?recent) / real (length ?recent)"
    by (rule mean_lower)
  then show ?thesis using l ne by (simp add: get_average_def Let_def)
qed

lemma add_score_scores:
  "scores (add_score sc cat s tid nts now) k =
     (if k = category_value cat
      then Some ((case scores sc k of None \<Rightarrow> [] | Some l \<Rightarrow> l) @
             [\<lparr>category = cat, score = s, timestamp = now, task_id = tid, score_notes = nts\<rparr>])
      else scores sc k)"
  by (simp add: add_score_def Let_def)

lemma add_score_ok:
  assumes "entries_ok sc" and "0 \<le> s" and "cat = CORRECTNESS \<or> cat = COMPLIANCE \<Longrightarrow> 95 \<le> s"
  shows "entries_ok (add_score sc cat s tid nts now)"
  unfolding entries_ok_def
proof (intro allI impI ballI)
  fix k l e
  assume l: "scores (add_score sc cat s tid nts now) k = Some l" and e: "e \<in> set l"
  show "0 \<le> score e \<and> (k = ''correctness'' \<or> k = ''compliance'' \<longrightarrow> 95 \<le> score e)"
  proof (cases "k = category_value cat")
    case False
    then show ?thesis using l e assms(1) by (simp add: add_score_scores entries_ok_def)
  next
    case True
    show ?thesis
    proof (cases "scores sc k")
      case None
      then show ?thesis using l e True assms(2,3) by (auto simp: add_score_scores)
    next
      case (Some old)
      then have "\<forall>x\<in>set old. 0 \<le> score x \<and> (k = ''correctness'' \<or> k = ''compliance'' \<longrightarrow> 95 \<le> score x)"
        using assms(1) by (simp add: entries_ok_def)
      then show ?thesis using l e True Some assms(2,3) by (auto simp: add_score_scores)
    qed
  qed
qed

lemma add_score_entry_new: "has_entry_at (add_score sc cat s tid nts now) cat now"
  by (force simp: has_entry_at_def add_score_scores)

lemma add_score_entry_keep:
  "has_entry_at sc c t \<Longrightarrow> has_entry_at (add_score sc cat s tid nts now) c t"
  by (force simp: has_entry_at_def add_score_scores)

lemma add_scores_ok:
  assumes "entries_ok sc"
    and "\<forall>(c, s)\<in>set scs. 0 \<le> s \<and> (c = CORRECTNESS \<or> c = COMPLIANCE \<longrightarrow> 95 \<le> s)"
  shows "entries_ok (foldl (\<lambda>sc (cat, s). add_score sc cat s tid nts now) sc scs)"
  using assms by (induction scs arbitrary: sc) (auto intro: add_score_ok)

lemma add_scores_entry_keep:
  "has_entry_at sc c t \<Longrightarrow>
     has_entry_at (foldl (\<lambda>sc (cat, s). add_score sc cat s tid nts now) sc scs) c t"
  by (induction scs arbitrary: sc) (auto intro: add_score_entry_keep)

lemma add_scores_entry_new:
  "c \<in> fst ` set scs \<Longrightarrow>
     has_entry_at (foldl (\<lambda>sc (cat, s). add_score sc cat s tid nts now) sc scs) c now"
proof (induction scs arbitrary: sc)
  case Nil
  then show ?case by simp
next
  case (Cons x scs)
  obtain cat s where x: "x = (cat, s)" by (cases x) auto
  show ?case
  proof (cases "c = cat")
    case True
    have "has_entry_at (add_score sc cat s tid nts now) c now"
      using True by (simp add: add_score_entry_new)
    then show ?thesis using x by (simp add: add_scores_entry_keep)
  next
    case False
    then have "c \<in> fst ` set scs" using Cons.prems x by auto
    then show ?thesis using x Cons.IH by simp
  qed
qed

lemma good_scores_iff:
  "good_scores scs \<longleftrightarrow>
     CORRECTNESS \<in> fst ` set scs \<and> COMPLIANCE \<in> fst ` set scs \<and>
     (\<forall>(c, s)\<in>set scs. 0 \<le> s \<and> (c = CORRECTNESS \<or> c = COMPLIANCE \<longrightarrow> 95 \<le> s))"
  by (force simp: good_scores_def list_ex_iff list_all_iff)

lemma adjust_autonomy_good:
  assumes "good_card sc" and "has_entry_at sc CORRECTNESS now" and "has_entry_at sc COMPLIANCE now"
  shows "good_card (adjust_autonomy sc now)"
proof -
  have ok: "entries_ok sc" and lvl: "autonomy_level sc = 1" and cnt: "successful_tasks sc = total_tasks sc"
    using assms(1) by (simp_all add: good_card_def)
  have a1: "95 \<le> get_average sc CORRECTNESS 30 now" and a2: "95 \<le> get_average sc COMPLIANCE 30 now"
    using ok assms(2,3) by (simp_all add: get_average_high)
  have a3: "0 \<le> get_average sc EFFICIENCY 30 now" and a4: "0 \<le> get_average sc COST 30 now"
    and a5: "0 \<le> get_average sc STABILITY 30 now"
    using ok by (simp_all add: get_average_nonneg)
  have overall: "50 \<le> get_overall_score sc now"
    using a1 a2 a3 a4 a5 by (simp add: overall_unfold)
  have rate: "get_success_rate sc = 1"
    using cnt by (simp add: get_success_rate_def)
  show ?thesis
    using overall rate lvl cnt ok
    by (auto simp: adjust_autonomy_def Let_def good_card_def entries_ok_def)
qed

lemma record_task_result_good:
  assumes "case ev a of None \<Rightarrow> True | Some sc \<Rightarrow> good_card sc" and "good_scores scs"
  shows "\<exists>sc'. record_task_result ev a True scs tid now a = Some sc' \<and> good_card sc'"
proof -
  let ?sc0 = "case ev a of None \<Rightarrow> new_scorecard a | Some sc \<Rightarrow> sc"
  let ?sc2 = "foldl (\<lambda>sc (cat, s). add_score sc cat s tid [] now) (record_success ?sc0) scs"
  have g0: "good_card ?sc0"
    using assms(1) by (auto simp: good_card_def new_scorecard_def entries_ok_def split: option.splits)
  then have g1: "good_card (record_success ?sc0)"
    by (simp add: good_card_def record_success_def entries_ok_def)
  from assms(2) have gs: "CORRECTNESS \<in> fst ` set scs" "COMPLIANCE \<in> fst ` set scs"
    "\<forall>(c, s)\<in>set scs. 0 \<le> s \<and> (c = CORRECTNESS \<or> c = COMPLIANCE \<longrightarrow> 95 \<le> s)"
    by (simp_all add: good_scores_iff)
  have g2: "good_card ?sc2"
    using g1 add_scores_ok[OF _ gs(3)] by (simp add: good_card_def)
  have "has_entry_at ?sc2 CORRECTNESS now" "has_entry_at ?sc2 COMPLIANCE now"
    using gs(1,2) by (simp_all add: add_scores_entry_new)
  with g2 have "good_card (adjust_autonomy ?sc2 now)"
    by (rule adjust_autonomy_good)
  then show ?thesis by (simp add: record_task_result_same Let_def)
qed

lemma record_calls_good:
  assumes "case ev a of None \<Rightarrow> True | Some sc \<Rightarrow> good_card sc"
    and "good_calls a calls"
    and "calls \<noteq> []"
  shows "\<exists>sc'. record_calls ev calls a = Some sc' \<and> good_card sc'"
  using assms
proof (induction calls arbitrary: ev)
  case Nil
  then show ?case by simp
next
  case (Cons c calls)
  obtain a' succ scs tid now where c: "c = (a', succ, scs, tid, now)" by (cases c) auto
  with Cons.prems(2) have c': "a' = a" "succ" "good_scores scs" and rest: "good_calls a calls"
    by (auto simp: good_calls_def)
  obtain sc1 where sc1: "record_task_result ev a True scs tid now a = Some sc1" "good_card sc1"
    using record_task_result_good[where ev = ev and a = a, OF Cons.prems(1) c'(3)] by blast
  show ?case
  proof (cases "calls = []")
    case True
    then show ?thesis using sc1 c c' by (simp add: record_calls_def)
  next
    case False
    have "\<exists>sc'. record_calls (record_task_result ev a True scs tid now) calls a = Some sc' \<and> good_card sc'"
      using sc1 rest False by (intro Cons.IH) auto
    then show ?thesis using c c' by (simp add: record_calls_def)
  qed
qed

lemma fresh_autonomy_unchanged:
  assumes "ev a = None \<or> ev a = Some (new_scorecard a)" and "good_calls a calls" and "calls \<noteq> []"
  shows "map_option autonomy_level (record_calls ev calls a) = Some 1"
proof -
  have "case ev a of None \<Rightarrow> True | Some sc \<Rightarrow> good_card sc"
    using assms(1) by (auto simp: good_card_def new_scorecard_def entries_ok_def)
  then obtain sc' where "record_calls ev calls a = Some sc'" "good_card sc'"
    using record_calls_good assms(2,3) by blast
  then show ?thesis by (simp add: good_card_def)
qed

lemma five_good_calls_good: "good_calls ''GoodAgent'' five_good_calls"
  by (simp add: good_calls_def five_good_calls_def good_scores_def)

text \<open>
  C4, as the code has it. A fresh scorecard starts at the cap, \<^verbatim>\<open>autonomy_level = 1.0\<close>.
  After five (or any positive number of) consecutive successful \<^verbatim>\<open>record_task_result\<close>
  calls whose scores rate correctness and compliance with at least 95 and hold no
  negative score, the autonomy level equals its initial value 1.0; it is not greater.
\<close>

theorem fresh_scorecard_autonomy_stays_at_cap:
  assumes "ev a = None \<or> ev a = Some (new_scorecard a)"
    and "good_calls a calls" and "calls \<noteq> []"
  shows "map_option autonomy_level (record_calls ev calls a)
           = Some (autonomy_level (new_scorecard a)) \<and>
         autonomy_level (new_scorecard a) = 1"
  using fresh_autonomy_unchanged [where ev = ev and a = a, OF assms]
  by (simp add: new_scorecard_def)

theorem fresh_scorecard_autonomy_stays_at_cap_witness:
  "length five_good_calls = 5 \<and>
   map_option autonomy_level (record_calls Map.empty five_good_calls ''GoodAgent'')
     = Some (autonomy_level (new_scorecard ''GoodAgent''))"
proof -
  have len: "length five_good_calls = 5" and ne: "five_good_calls \<noteq> []"
    by (simp_all add: five_good_calls_def)
  have fresh: "Map.empty ''GoodAgent'' = None \<or>
               Map.empty ''GoodAgent'' = Some (new_scorecard ''GoodAgent'')"
    by simp
  show ?thesis
    using fresh_scorecard_autonomy_stays_at_cap
            [of Map.empty "''GoodAgent''" five_good_calls, OF fresh five_good_calls_good ne] len
    by blast
qed

text \<open>
  The claim C4 as it is written fails: after five successful results with correctness
  and compliance at 95 on a fresh scorecard, the autonomy level is 1.0, which is the
  initial value and not strictly greater.
\<close>

theorem autonomy_not_increased_counterexample:
  "record_calls Map.empty five_good_calls ''GoodAgent'' \<noteq> None \<and>
   \<not> autonomy_level (new_scorecard ''GoodAgent'')
       < autonomy_level (the (record_calls Map.empty five_good_calls ''GoodAgent''))"
proof -
  have ne: "five_good_calls \<noteq> []"
    by (simp add: five_good_calls_def)
  have fresh: "Map.empty ''GoodAgent'' = None \<or>
               Map.empty ''GoodAgent'' = Some (new_scorecard ''GoodAgent'')"
    by simp
  have "map_option autonomy_level (record_calls Map.empty five_good_calls ''GoodAgent'') = Some 1"
    using fresh_autonomy_unchanged
            [of Map.empty "''GoodAgent''" five_good_calls, OF fresh five_good_calls_good ne] .
  then show ?thesis by (auto simp: new_scorecard_def)
qed

subsection \<open>The worker wrapper\<close>

lemma execute_input_error:
  assumes "has_error (in_validate inp)"
  shows "execute ag inp st =
           (Inl (ContractViolationError
                  (''Input contract violation: '' @ py_list_repr (map message (in_validate inp)))), st)"
  using assms by (simp add: execute_def Let_def)

lemma adjust_autonomy_counters [simp]:
  "total_tasks (adjust_autonomy sc now) = total_tasks sc"
  "successful_tasks (adjust_autonomy sc now) = successful_tasks sc"
  "failed_tasks (adjust_autonomy sc now) = failed_tasks sc"
  by (simp_all add: adjust_autonomy_def Let_def)

lemma get_scorecard_fst: "fst (get_scorecard ev a) = (case ev a of None \<Rightarrow> new_scorecard a | Some sc \<Rightarrow> sc)"
  by (simp add: get_scorecard_def split: option.splits)

lemma record_failure_counters:
  "total_tasks (fst (get_scorecard (record_task_result ev a False scs tid now) a))
     = total_tasks (fst (get_scorecard ev a)) + 1"
  "failed_tasks (fst (get_scorecard (record_task_result ev a False scs tid now) a))
     = failed_tasks (fst (get_scorecard ev a)) + 1"
  "successful_tasks (fst (get_scorecard (record_task_result ev a False scs tid now) a))
     = successful_tasks (fst (get_scorecard ev a))"
  by (simp_all add: get_scorecard_fst record_task_result_same record_failure_def Let_def)

lemma agent_record_failure_counters:
  "total_tasks (scorecard_of (agent_record_failure ag tid reason st) (name ag))
     = total_tasks (scorecard_of st (name ag)) + 1"
  "failed_tasks (scorecard_of (agent_record_failure ag tid reason st) (name ag))
     = failed_tasks (scorecard_of st (name ag)) + 1"
  "successful_tasks (scorecard_of (agent_record_failure ag tid reason st) (name ag))
     = successful_tasks (scorecard_of st (name ag))"
  by (simp_all add: scorecard_of_def agent_record_failure_def Let_def record_failure_counters case_prod_beta)

lemma agent_record_failure_memory:
  "memory_store (agent_record_failure ag tid reason st) =
     snd (learn_from_failure (name ag) (memory_store st) (FailureNote tid reason (clock st)) (clock st))"
  "clock (agent_record_failure ag tid reason st) = clock st"
  by (simp_all add: agent_record_failure_def Let_def case_prod_beta)

lemma execute_output_error:
  assumes "\<not> has_error (in_validate inp)"
    and "execute_impl ag inp
           (st\<lparr>memory_store := snd (remember (name ag) (memory_store st)
                 (TaskNote (in_request_id inp) (in_type_name inp)) WORKING 1.0
                 [''task'', ''current''] (clock st))\<rparr>) = (Inr out, st2)"
    and "has_error (out_validate out)"
  shows "execute ag inp st =
      (Inl (ContractViolationError
              (''Output contract violation: '' @ py_list_repr (map message (out_validate out)))),
       agent_record_failure ag (in_request_id inp)
         (''Output contract violation: '' @ py_list_repr (map message (out_validate out)))
         (agent_record_failure ag (in_request_id inp) ''output_validation_failed'' st2))"
  using assms by (simp add: execute_def Let_def case_prod_beta)

lemma execute_worker_error:
  assumes "\<not> has_error (in_validate inp)"
    and "execute_impl ag inp
           (st\<lparr>memory_store := snd (remember (name ag) (memory_store st)
                 (TaskNote (in_request_id inp) (in_type_name inp)) WORKING 1.0
                 [''task'', ''current''] (clock st))\<rparr>) = (Inl e, st2)"
  shows "execute ag inp st = (Inl e, agent_record_failure ag (in_request_id inp) (error_str e) st2)"
  using assms by (simp add: execute_def Let_def case_prod_beta)

lemma store_entries:
  "entries (snd (store ms c sc src conf dp tgs now)) =
     (entries ms)(generate_id ms c \<mapsto>
        \<lparr>entry_id = generate_id ms c, content = c, scope = sc, source = src, confidence = conf,
         decay_policy = (case dp of None \<Rightarrow> SCOPE_DECAY_DEFAULTS sc | Some p \<Rightarrow> p),
         created_at = now, last_accessed = now, access_count = 0, tags = tgs,
         related_entries = []\<rparr>)"
  "generate_id (snd (store ms c sc src conf dp tgs now)) = generate_id ms"
  by (simp_all add: store_def Let_def)

lemma learn_from_failure_entries:
  "entries (snd (learn_from_failure a ms note now)) =
     (entries ms)(generate_id ms note \<mapsto>
        \<lparr>entry_id = generate_id ms note, content = note, scope = FAILURE, source = a,
         confidence = 1, decay_policy = MEDIUM, created_at = now, last_accessed = now,
         access_count = 0, tags = [''failure'', ''learning''], related_entries = []\<rparr>)"
  "generate_id (snd (learn_from_failure a ms note now)) = generate_id ms"
  by (simp_all add: learn_from_failure_def remember_def store_entries)


text \<open>
  C9. When the \<^verbatim>\<open>validate()\<close> result of the input holds a violation of error severity,
  \<^verbatim>\<open>execute\<close> raises \<^verbatim>\<open>ContractViolationError\<close> and returns the stores as they were: no entry
  is added to the memory store and nothing is recorded in the evaluation system. The
  worker-specific logic is not reached: the result is the same for any \<^verbatim>\<open>_execute_impl\<close>.
\<close>

theorem input_violation_raises_before_dispatch:
  assumes "has_error (in_validate inp)"
  shows "execute ag inp st =
           (Inl (ContractViolationError
                  (''Input contract violation: '' @ py_list_repr (map message (in_validate inp)))), st)
         \<and> memory_store (snd (execute ag inp st)) = memory_store st
         \<and> evaluation (snd (execute ag inp st)) = evaluation st
         \<and> (\<forall>f. execute (ag\<lparr>execute_impl := f\<rparr>) inp st = execute ag inp st)"
  using assms by (simp add: execute_input_error)

theorem input_violation_raises_before_dispatch_witness:
  "execute (returning_agent ''BuildTestAgent'' 8 (sample_output [])) (sample_input [sample_violation])
     sample_stores =
     (Inl (ContractViolationError (''Input contract violation: '' @ py_list_repr [''Build failed''])),
      sample_stores)"
  using input_violation_raises_before_dispatch
    [of "sample_input [sample_violation]" "returning_agent ''BuildTestAgent'' 8 (sample_output [])"
        sample_stores]
  by (simp add: sample_input_def sample_violation_def has_error_def)


text \<open>
  C10. Let the input pass its check and let the worker-specific logic end in the stores
  \<open>st2\<close>. When it returns an output whose \<^verbatim>\<open>validate()\<close> result holds a violation of error
  severity, \<^verbatim>\<open>execute\<close> raises \<^verbatim>\<open>ContractViolationError\<close> after \<^verbatim>\<open>_record_failure\<close> has run
  twice: \<^verbatim>\<open>total_tasks\<close> and \<^verbatim>\<open>failed_tasks\<close> of the worker are each 2 higher than in \<open>st2\<close>, and
  two failure notes have been stored. When the logic raises, \<^verbatim>\<open>_record_failure\<close> has run
  once and the two counters are each 1 higher.
\<close>

theorem output_violation_recorded_twice:
  assumes "\<not> has_error (in_validate inp)"
    and "execute_impl ag inp (task_noted ag inp st) = (res, st2)"
  shows
    "(\<forall>out. res = Inr out \<and> has_error (out_validate out) \<longrightarrow>
        (let tid = in_request_id inp;
             msg = ''Output contract violation: '' @ py_list_repr (map message (out_validate out));
             n1 = FailureNote tid ''output_validation_failed'' (clock st2);
             n2 = FailureNote tid msg (clock st2);
             gid = generate_id (memory_store st2);
             st4 = snd (execute ag inp st)
         in execute ag inp st =
              (Inl (ContractViolationError msg),
               agent_record_failure ag tid msg
                 (agent_record_failure ag tid ''output_validation_failed'' st2)) \<and>
            total_tasks (scorecard_of st4 (name ag)) = total_tasks (scorecard_of st2 (name ag)) + 2 \<and>
            failed_tasks (scorecard_of st4 (name ag)) = failed_tasks (scorecard_of st2 (name ag)) + 2 \<and>
            successful_tasks (scorecard_of st4 (name ag)) = successful_tasks (scorecard_of st2 (name ag)) \<and>
            memory_store st4 =
              snd (learn_from_failure (name ag)
                     (snd (learn_from_failure (name ag) (memory_store st2) n1 (clock st2)))
                     n2 (clock st2)) \<and>
            map_option scope (entries (memory_store st4) (gid n1)) = Some FAILURE \<and>
            map_option content (entries (memory_store st4) (gid n2)) = Some n2 \<and>
            (gid n1 \<noteq> gid n2 \<longrightarrow>
               map_option content (entries (memory_store st4) (gid n1)) = Some n1))) \<and>
     (\<forall>e. res = Inl e \<longrightarrow>
        (let tid = in_request_id inp;
             st3 = snd (execute ag inp st)
         in execute ag inp st = (Inl e, agent_record_failure ag tid (error_str e) st2) \<and>
            total_tasks (scorecard_of st3 (name ag)) = total_tasks (scorecard_of st2 (name ag)) + 1 \<and>
            failed_tasks (scorecard_of st3 (name ag)) = failed_tasks (scorecard_of st2 (name ag)) + 1 \<and>
            successful_tasks (scorecard_of st3 (name ag)) = successful_tasks (scorecard_of st2 (name ag)) \<and>
            memory_store st3 =
              snd (learn_from_failure (name ag) (memory_store st2)
                     (FailureNote tid (error_str e) (clock st2)) (clock st2))))"
proof (intro conjI allI impI)
  fix out
  assume a: "res = Inr out \<and> has_error (out_validate out)"
  let ?msg = "''Output contract violation: '' @ py_list_repr (map message (out_validate out))"
  have ex: "execute ag inp st =
      (Inl (ContractViolationError ?msg),
       agent_record_failure ag (in_request_id inp) ?msg
         (agent_record_failure ag (in_request_id inp) ''output_validation_failed'' st2))"
    using assms a execute_output_error[of inp ag st out st2] by (simp add: task_noted_def)
  show "let tid = in_request_id inp;
             msg = ''Output contract violation: '' @ py_list_repr (map message (out_validate out));
             n1 = FailureNote tid ''output_validation_failed'' (clock st2);
             n2 = FailureNote tid msg (clock st2);
             gid = generate_id (memory_store st2);
             st4 = snd (execute ag inp st)
         in execute ag inp st =
              (Inl (ContractViolationError msg),
               agent_record_failure ag tid msg
                 (agent_record_failure ag tid ''output_validation_failed'' st2)) \<and>
            total_tasks (scorecard_of st4 (name ag)) = total_tasks (scorecard_of st2 (name ag)) + 2 \<and>
            failed_tasks (scorecard_of st4 (name ag)) = failed_tasks (scorecard_of st2 (name ag)) + 2 \<and>
            successful_tasks (scorecard_of st4 (name ag)) = successful_tasks (scorecard_of st2 (name ag)) \<and>
            memory_store st4 =
              snd (learn_from_failure (name ag)
                     (snd (learn_from_failure (name ag) (memory_store st2) n1 (clock st2)))
                     n2 (clock st2)) \<and>
            map_option scope (entries (memory_store st4) (gid n1)) = Some FAILURE \<and>
            map_option content (entries (memory_store st4) (gid n2)) = Some n2 \<and>
            (gid n1 \<noteq> gid n2 \<longrightarrow>
               map_option content (entries (memory_store st4) (gid n1)) = Some n1)"
    unfolding Let_def ex
    by (simp add: agent_record_failure_counters agent_record_failure_memory
          learn_from_failure_entries)
next
  fix e
  assume a: "res = Inl e"
  have ex: "execute ag inp st =
      (Inl e, agent_record_failure ag (in_request_id inp) (error_str e) st2)"
    using assms a execute_worker_error[of inp ag st e st2] by (simp add: task_noted_def)
  show "let tid = in_request_id inp;
             st3 = snd (execute ag inp st)
         in execute ag inp st = (Inl e, agent_record_failure ag tid (error_str e) st2) \<and>
            total_tasks (scorecard_of st3 (name ag)) = total_tasks (scorecard_of st2 (name ag)) + 1 \<and>
            failed_tasks (scorecard_of st3 (name ag)) = failed_tasks (scorecard_of st2 (name ag)) + 1 \<and>
            successful_tasks (scorecard_of st3 (name ag)) = successful_tasks (scorecard_of st2 (name ag)) \<and>
            memory_store st3 =
              snd (learn_from_failure (name ag) (memory_store st2)
                     (FailureNote tid (error_str e) (clock st2)) (clock st2))"
    unfolding Let_def ex
    by (simp add: agent_record_failure_counters agent_record_failure_memory)
qed


theorem output_violation_recorded_twice_witness:
  "total_tasks (scorecard_of (snd (execute bad_output_agent (sample_input []) sample_stores))
      ''BuildTestAgent'') = 2 \<and>
   failed_tasks (scorecard_of (snd (execute bad_output_agent (sample_input []) sample_stores))
      ''BuildTestAgent'') = 2 \<and>
   total_tasks (scorecard_of (snd (execute crashing_agent (sample_input []) sample_stores))
      ''BuildTestAgent'') = 1 \<and>
   failed_tasks (scorecard_of (snd (execute crashing_agent (sample_input []) sample_stores))
      ''BuildTestAgent'') = 1"
proof -
  have ok: "\<not> has_error (in_validate (sample_input []))"
    by (simp add: sample_input_def has_error_def)
  have bad: "has_error (out_validate (sample_output [sample_violation]))"
    by (simp add: sample_output_def sample_violation_def has_error_def)
  have zero: "total_tasks (scorecard_of (task_noted ag (sample_input []) sample_stores) ''BuildTestAgent'') = 0"
    "failed_tasks (scorecard_of (task_noted ag (sample_input []) sample_stores) ''BuildTestAgent'') = 0"
    for ag :: "(unit, unit) Agent"
    by (simp_all add: scorecard_of_def task_noted_def sample_stores_def get_scorecard_def new_scorecard_def)
  have n: "name bad_output_agent = ''BuildTestAgent''" "name crashing_agent = ''BuildTestAgent''"
    by (simp_all add: bad_output_agent_def crashing_agent_def returning_agent_def raising_agent_def)
  have i1: "execute_impl bad_output_agent (sample_input [])
              (task_noted bad_output_agent (sample_input []) sample_stores)
            = (Inr (sample_output [sample_violation]),
               task_noted bad_output_agent (sample_input []) sample_stores)"
    by (simp add: bad_output_agent_def returning_agent_def)
  have i2: "execute_impl crashing_agent (sample_input [])
              (task_noted crashing_agent (sample_input []) sample_stores)
            = (Inl (WorkerError ''boom''),
               task_noted crashing_agent (sample_input []) sample_stores)"
    by (simp add: crashing_agent_def raising_agent_def)
  have t1: "total_tasks (scorecard_of (snd (execute bad_output_agent (sample_input []) sample_stores))
               (name bad_output_agent))
            = total_tasks (scorecard_of (task_noted bad_output_agent (sample_input []) sample_stores)
                (name bad_output_agent)) + 2 \<and>
            failed_tasks (scorecard_of (snd (execute bad_output_agent (sample_input []) sample_stores))
               (name bad_output_agent))
            = failed_tasks (scorecard_of (task_noted bad_output_agent (sample_input []) sample_stores)
                (name bad_output_agent)) + 2"
    using output_violation_recorded_twice [OF ok i1] bad unfolding Let_def by blast
  have t2: "total_tasks (scorecard_of (snd (execute crashing_agent (sample_input []) sample_stores))
               (name crashing_agent))
            = total_tasks (scorecard_of (task_noted crashing_agent (sample_input []) sample_stores)
                (name crashing_agent)) + 1 \<and>
            failed_tasks (scorecard_of (snd (execute crashing_agent (sample_input []) sample_stores))
               (name crashing_agent))
            = failed_tasks (scorecard_of (task_noted crashing_agent (sample_input []) sample_stores)
                (name crashing_agent)) + 1"
    using output_violation_recorded_twice [OF ok i2] unfolding Let_def by blast
  show ?thesis
    using t1 t2 by (simp add: n zero)
qed


subsection \<open>Escalation and resolution\<close>

text \<open>
  C7, as the code has it. \<^verbatim>\<open>Orchestrator.escalate_conflict\<close> creates a conflict record
  owned by the architect, returns it and appends it to the escalation list. It leaves
  the stores as they are: the record is not written to the memory store.
\<close>

theorem escalate_conflict_appends_only:
  "escalate_conflict orch tpc involved evid cid =
     (\<lparr>conflict_id = cid, topic = tpc, agents_involved = involved, evidence = evid,
       decision_owner = ''ArchitectAgent'', resolution = None,
       conflict_created_at = clock (orch_stores orch), resolved_at = None\<rparr>,
      orch\<lparr>orch_escalations := orch_escalations orch @
        [\<lparr>conflict_id = cid, topic = tpc, agents_involved = involved, evidence = evid,
          decision_owner = ''ArchitectAgent'', resolution = None,
          conflict_created_at = clock (orch_stores orch), resolved_at = None\<rparr>]\<rparr>) \<and>
   orch_stores (snd (escalate_conflict orch tpc involved evid cid)) = orch_stores orch \<and>
   memory_store (orch_stores (snd (escalate_conflict orch tpc involved evid cid)))
     = memory_store (orch_stores orch)"
  by (simp add: escalate_conflict_def Let_def)


theorem escalate_conflict_appends_only_witness:
  "escalate_conflict sample_orch ''Design disagreement''
       [''ProductAgent'', ''ImplementationAgent''] [''Test''] ''c1''
     = (sample_conflict None None,
        sample_orch\<lparr>orch_escalations := [sample_conflict None None]\<rparr>)"
  using escalate_conflict_appends_only
    [of sample_orch "''Design disagreement''" "[''ProductAgent'', ''ImplementationAgent'']"
        "[''Test'']" "''c1''"]
  by (simp add: sample_conflict_def sample_orch_def sample_stores_def)

text \<open>
  The claim C7 as it is written fails: after an escalation on an orchestrator with an
  empty memory store, the escalation list holds the record and the memory store is still
  empty, so it holds no entry of the project scope.
\<close>

theorem escalation_not_persisted_counterexample:
  "orch_escalations (snd (escalate_conflict sample_orch ''Design disagreement''
       [''ProductAgent'', ''ImplementationAgent''] [''Test''] ''c1''))
     = [sample_conflict None None] \<and>
   entries (memory_store (orch_stores (snd (escalate_conflict sample_orch ''Design disagreement''
       [''ProductAgent'', ''ImplementationAgent''] [''Test''] ''c1'')))) = Map.empty"
  by (simp add: escalate_conflict_def Let_def sample_orch_def sample_conflict_def sample_stores_def sample_store_def)

lemma resolve_in_absent:
  "cid \<notin> conflict_id ` set cs \<Longrightarrow> resolve_in cs cid res now = (False, cs)"
  by (induction cs) auto

lemma resolve_in_first:
  "cid \<notin> conflict_id ` set pre \<Longrightarrow> conflict_id c = cid \<Longrightarrow>
     resolve_in (pre @ c # post) cid res now =
       (True, pre @ c\<lparr>resolution := Some res, resolved_at := Some now\<rparr> # post)"
  by (induction pre) auto


text \<open>
  C8, as the code has it. Called with an identifier that no record of the escalation list
  has, \<^verbatim>\<open>resolve_conflict\<close> changes nothing and returns \<^verbatim>\<open>False\<close>. Otherwise it sets
  \<^verbatim>\<open>resolution\<close> and \<^verbatim>\<open>resolved_at\<close> on the first record with that identifier, whether or not
  that record was resolved before, leaves the other records as they are and returns
  \<^verbatim>\<open>True\<close>.
\<close>

theorem resolve_conflict_first_match:
  "(cid \<notin> conflict_id ` set (orch_escalations orch) \<longrightarrow>
      resolve_conflict orch cid res = (False, orch)) \<and>
   (orch_escalations orch = pre @ c # post \<and> cid \<notin> conflict_id ` set pre \<and> conflict_id c = cid \<longrightarrow>
      resolve_conflict orch cid res =
        (True, orch\<lparr>orch_escalations :=
                 pre @ c\<lparr>resolution := Some res,
                          resolved_at := Some (clock (orch_stores orch))\<rparr> # post\<rparr>))"
  by (auto simp: resolve_conflict_def resolve_in_absent resolve_in_first)


theorem resolve_conflict_first_match_witness:
  "resolve_conflict resolved_orch ''c2'' ''second'' = (False, resolved_orch) \<and>
   resolve_conflict resolved_orch ''c1'' ''second'' =
     (True, resolved_orch\<lparr>orch_escalations := [sample_conflict (Some ''second'') (Some 5)]\<rparr>)"
  using resolve_conflict_first_match [of "''c2''" resolved_orch "''second''" "[]" "sample_conflict (Some ''first'') (Some 0)" "[]"]
        resolve_conflict_first_match [of "''c1''" resolved_orch "''second''" "[]" "sample_conflict (Some ''first'') (Some 0)" "[]"]
  by (simp add: resolved_orch_def sample_conflict_def sample_stores_def)


text \<open>
  The claim C8 as it is written fails: resolving a conflict that is already resolved
  returns \<^verbatim>\<open>True\<close> and overwrites the resolution and the time of resolution.
\<close>

theorem resolve_again_counterexample:
  "map resolution (orch_escalations resolved_orch) = [Some ''first''] \<and>
   fst (resolve_conflict resolved_orch ''c1'' ''second'') = True \<and>
   map resolution (orch_escalations (snd (resolve_conflict resolved_orch ''c1'' ''second'')))
     = [Some ''second''] \<and>
   map resolved_at (orch_escalations (snd (resolve_conflict resolved_orch ''c1'' ''second'')))
     = [Some 5]"
  by (simp add: resolve_conflict_def resolved_orch_def sample_conflict_def sample_stores_def)


subsection \<open>The workflow loop\<close>

lemma stage_value_inj [simp]: "stage_value s = stage_value s' \<longleftrightarrow> s = s'"
  by (cases s; cases s'; simp)

lemma task_key_inj [simp]: "task_key wid s = task_key wid s' \<longleftrightarrow> s = s'"
  by (simp add: task_key_def)

lemma deps_met_total:
  assumes "\<forall>s\<in>fst ` set wdef. tsk s \<noteq> None"
  shows "deps_met wid tsk deps wdef =
           Some (\<forall>s\<in>fst ` set wdef. task_key wid s \<in> set deps \<longrightarrow>
                   map_option status (tsk s) = Some COMPLETED)"
  using assms
proof (induction wdef)
  case Nil
  then show ?case by simp
next
  case (Cons x wdef)
  obtain s a d where x: "x = (s, a, d)" by (cases x) auto
  from Cons.prems obtain t where t: "tsk s = Some t" by (auto simp: x)
  have ih: "deps_met wid tsk deps wdef =
           Some (\<forall>s\<in>fst ` set wdef. task_key wid s \<in> set deps \<longrightarrow>
                   map_option status (tsk s) = Some COMPLETED)"
    using Cons by simp
  show ?case using t ih by (auto simp: x)
qed

lemma handle_failure_effect:
  assumes "handle_failure stg task tsk ctx = (h, tsk', ctx')"
  shows "(\<not> h \<and> tsk' = tsk \<and> ctx' = ctx) \<or>
         (h \<and> retry_count task < max_retries task \<and>
          (\<exists>tg tt. FAILURE_ROUTING stg = Some tg \<and> tsk tg = Some tt \<and>
             tsk' = tsk(tg \<mapsto> tt\<lparr>status := PENDING, retry_count := retry_count tt + 1\<rparr>)))"
  using assms by (auto simp: handle_failure_def Let_def split: option.splits if_splits)

lemma handle_failure_flag:
  "fst (handle_failure stg task tsk ctx) \<longleftrightarrow>
     retry_count task < max_retries task \<and>
     (case FAILURE_ROUTING stg of None \<Rightarrow> False | Some tg \<Rightarrow> tsk tg \<noteq> None)"
  by (auto simp: handle_failure_def Let_def split: option.splits)

lemma routing_table:
  "FAILURE_ROUTING stg = Some tg \<longleftrightarrow>
     (stg \<in> {REVIEW, BUILD_TEST, INTEGRATION} \<and> tg = IMPLEMENTATION) \<or>
     (stg = FINAL_APPROVAL \<and> tg = ARCHITECTURE)"
  by (cases stg) auto

lemma routing_target_no_entry:
  "FAILURE_ROUTING s = Some X \<Longrightarrow> FAILURE_ROUTING X = None"
  by (cases s) auto

lemma run_stage_blocked:
  assumes "tasks st stg = Some task"
    and "deps_met wid (tasks st) (dependencies task) wdef = Some False"
  shows "run_stage orch wdef wid (stg, an, ds) st =
           Some (False, st\<lparr>tasks := (tasks st)(stg \<mapsto> task\<lparr>status := BLOCKED\<rparr>),
                           failed_stages := failed_stages st @ [stg]\<rparr>)"
  using assms by (simp add: run_stage_def)

lemma run_stage_completed:
  assumes "tasks st stg = Some task"
    and "deps_met wid (tasks st) (dependencies task) wdef = Some True"
    and "dispatch orch an (prepare_input orch stg (run_context st) (outputs st)) (run_stores st)
           = (Inr out, sto)"
  shows "run_stage orch wdef wid (stg, an, ds) st =
           Some (False,
             st\<lparr>tasks := (tasks st)(stg \<mapsto> (running_task orch stg st task)\<lparr>output_data := Some out,
                             status := COMPLETED, completed_at := Some (clock sto)\<rparr>),
                completed_stages := completed_stages st @ [stg],
                outputs := (outputs st)(stg \<mapsto> out),
                run_context := update_context orch stg out (run_context st),
                run_stores := sto\<rparr>)"
  using assms by (simp add: run_stage_def dispatch_def running_task_def Let_def)

lemma run_stage_failed:
  assumes "tasks st stg = Some task"
    and "deps_met wid (tasks st) (dependencies task) wdef = Some True"
    and "dispatch orch an (prepare_input orch stg (run_context st) (outputs st)) (run_stores st)
           = (Inl e, sto)"
    and "handle_failure stg (failed_task (running_task orch stg st task) e sto)
           ((tasks st)(stg \<mapsto> failed_task (running_task orch stg st task) e sto)) (run_context st)
           = (h, tsk3, ctx3)"
  shows "run_stage orch wdef wid (stg, an, ds) st =
           Some (if h then (False, st\<lparr>tasks := tsk3, run_context := ctx3, run_stores := sto\<rparr>)
                 else (True, st\<lparr>tasks := tsk3, failed_stages := failed_stages st @ [stg],
                                 run_context := ctx3, run_stores := sto\<rparr>))"
  using assms by (simp add: run_stage_def dispatch_def running_task_def failed_task_def Let_def)

lemma run_stage_elim:
  assumes "run_stage orch wdef wid (stg, an, ds) st = Some (brk, st')"
  obtains
    (Blocked) task where "tasks st stg = Some task"
      and "deps_met wid (tasks st) (dependencies task) wdef = Some False"
      and "\<not> brk"
      and "st' = st\<lparr>tasks := (tasks st)(stg \<mapsto> task\<lparr>status := BLOCKED\<rparr>),
                     failed_stages := failed_stages st @ [stg]\<rparr>"
  | (Completed) task out sto where "tasks st stg = Some task"
      and "deps_met wid (tasks st) (dependencies task) wdef = Some True"
      and "dispatch orch an (prepare_input orch stg (run_context st) (outputs st)) (run_stores st)
             = (Inr out, sto)"
      and "\<not> brk"
      and "st' = st\<lparr>tasks := (tasks st)(stg \<mapsto> (running_task orch stg st task)\<lparr>output_data := Some out,
                             status := COMPLETED, completed_at := Some (clock sto)\<rparr>),
                completed_stages := completed_stages st @ [stg],
                outputs := (outputs st)(stg \<mapsto> out),
                run_context := update_context orch stg out (run_context st),
                run_stores := sto\<rparr>"
  | (Halted) task e sto where "tasks st stg = Some task"
      and "deps_met wid (tasks st) (dependencies task) wdef = Some True"
      and "dispatch orch an (prepare_input orch stg (run_context st) (outputs st)) (run_stores st)
             = (Inl e, sto)"
      and "\<not> fst (handle_failure stg (failed_task (running_task orch stg st task) e sto)
           ((tasks st)(stg \<mapsto> failed_task (running_task orch stg st task) e sto)) (run_context st))"
      and "brk"
      and "st' = st\<lparr>tasks := (tasks st)(stg \<mapsto> failed_task (running_task orch stg st task) e sto),
                     failed_stages := failed_stages st @ [stg], run_stores := sto\<rparr>"
  | (Routed) task e sto tg tt ctx3 where "tasks st stg = Some task"
      and "deps_met wid (tasks st) (dependencies task) wdef = Some True"
      and "dispatch orch an (prepare_input orch stg (run_context st) (outputs st)) (run_stores st)
             = (Inl e, sto)"
      and "fst (handle_failure stg (failed_task (running_task orch stg st task) e sto)
           ((tasks st)(stg \<mapsto> failed_task (running_task orch stg st task) e sto)) (run_context st))"
      and "FAILURE_ROUTING stg = Some tg"
      and "((tasks st)(stg \<mapsto> failed_task (running_task orch stg st task) e sto)) tg = Some tt"
      and "\<not> brk"
      and "st' = st\<lparr>tasks := ((tasks st)(stg \<mapsto> failed_task (running_task orch stg st task) e sto))
                                (tg \<mapsto> tt\<lparr>status := PENDING, retry_count := retry_count tt + 1\<rparr>),
                     run_context := ctx3, run_stores := sto\<rparr>"
proof -
  from assms obtain task where task: "tasks st stg = Some task"
    by (auto simp: run_stage_def split: option.splits)
  from assms task obtain b where b: "deps_met wid (tasks st) (dependencies task) wdef = Some b"
    by (auto simp: run_stage_def split: option.splits)
  show thesis
  proof (cases b)
    case False
    with assms task b have "\<not> brk"
      "st' = st\<lparr>tasks := (tasks st)(stg \<mapsto> task\<lparr>status := BLOCKED\<rparr>),
                 failed_stages := failed_stages st @ [stg]\<rparr>"
      by (simp_all add: run_stage_blocked)
    with task b False show ?thesis by (intro Blocked) auto
  next
    case True
    obtain res sto where d: "dispatch orch an (prepare_input orch stg (run_context st) (outputs st))
        (run_stores st) = (res, sto)"
      by (cases "dispatch orch an (prepare_input orch stg (run_context st) (outputs st)) (run_stores st)")
    show ?thesis
    proof (cases res)
      case (Inr out)
      with assms task b True d show ?thesis
        by (intro Completed[of task out sto]) (simp_all add: run_stage_completed)
    next
      case (Inl e)
      let ?ft = "failed_task (running_task orch stg st task) e sto"
      obtain h tsk3 ctx3 where hf:
        "handle_failure stg ?ft ((tasks st)(stg \<mapsto> ?ft)) (run_context st) = (h, tsk3, ctx3)"
        by (cases "handle_failure stg ?ft ((tasks st)(stg \<mapsto> ?ft)) (run_context st)")
      have rs: "run_stage orch wdef wid (stg, an, ds) st =
           Some (if h then (False, st\<lparr>tasks := tsk3, run_context := ctx3, run_stores := sto\<rparr>)
                 else (True, st\<lparr>tasks := tsk3, failed_stages := failed_stages st @ [stg],
                                 run_context := ctx3, run_stores := sto\<rparr>))"
        using task b True d Inl hf by (intro run_stage_failed) auto
      from handle_failure_effect[OF hf]
      show ?thesis
      proof (elim disjE conjE exE)
        assume "\<not> h" "tsk3 = (tasks st)(stg \<mapsto> ?ft)" "ctx3 = run_context st"
        with rs assms task b True d Inl hf show ?thesis
          by (intro Halted[of task e sto]) auto
      next
        fix tg tt
        assume "h" "FAILURE_ROUTING stg = Some tg" "((tasks st)(stg \<mapsto> ?ft)) tg = Some tt"
          "tsk3 = ((tasks st)(stg \<mapsto> ?ft))(tg \<mapsto> tt\<lparr>status := PENDING, retry_count := retry_count tt + 1\<rparr>)"
        with rs assms task b True d Inl hf show ?thesis
          by (intro Routed[of task e sto tg tt ctx3]) auto
      qed
    qed
  qed
qed

lemma run_stage_dom:
  assumes "run_stage orch wdef wid (stg, an, ds) st = Some (brk, st')"
  shows "tasks st' X = None \<longleftrightarrow> tasks st X = None"
  using assms by (cases rule: run_stage_elim) (auto split: if_splits)

lemma run_stage_other:
  assumes "run_stage orch wdef wid (stg, an, ds) st = Some (brk, st')"
    and "X \<noteq> stg" and "tasks st X = Some t"
  shows "\<exists>t'. tasks st' X = Some t' \<and> dependencies t' = dependencies t \<and>
              (t' = t \<or> (status t' = PENDING \<and> (\<exists>s. FAILURE_ROUTING s = Some X)))"
  using assms by (cases rule: run_stage_elim) (auto split: if_splits)

lemma run_stage_failed_list:
  assumes "run_stage orch wdef wid (stg, an, ds) st = Some (brk, st')"
  shows "(failed_stages st' = failed_stages st \<or> failed_stages st' = failed_stages st @ [stg]) \<and>
         (brk \<longrightarrow> failed_stages st' = failed_stages st @ [stg])"
  using assms by (cases rule: run_stage_elim) auto

lemma run_stage_total:
  assumes "\<forall>s\<in>fst ` set wdef. tasks st s \<noteq> None" and "tasks st stg \<noteq> None"
  shows "run_stage orch wdef wid (stg, an, ds) st \<noteq> None"
proof -
  from assms(2) obtain task where task: "tasks st stg = Some task" by auto
  have dm: "deps_met wid (tasks st) (dependencies task) wdef \<noteq> None"
    using deps_met_total[OF assms(1)] by simp
  show ?thesis
    using task dm
    by (auto simp: run_stage_def Let_def split: option.splits bool.splits prod.splits sum.splits)
qed

lemma run_stages_dom:
  "run_stages orch wdef wid xs st = Some (brk, st') \<Longrightarrow>
     (tasks st' X = None \<longleftrightarrow> tasks st X = None)"
proof (induction xs arbitrary: st)
  case Nil
  then show ?case by simp
next
  case (Cons x xs)
  obtain stg an ds where x: "x = (stg, an, ds)" by (cases x) auto
  from Cons.prems obtain b s1 where s1: "run_stage orch wdef wid (stg, an, ds) st = Some (b, s1)"
    by (auto simp: x split: option.splits)
  show ?case
  proof (cases b)
    case True
    with Cons.prems s1 have "st' = s1" by (simp add: x)
    then show ?thesis using run_stage_dom[OF s1] by simp
  next
    case False
    with Cons.prems s1 have "run_stages orch wdef wid xs s1 = Some (brk, st')" by (simp add: x)
    then show ?thesis using Cons.IH run_stage_dom[OF s1] by simp
  qed
qed

lemma run_stages_total:
  assumes "\<forall>s\<in>fst ` set wdef. tasks st s \<noteq> None" and "fst ` set xs \<subseteq> fst ` set wdef"
  shows "run_stages orch wdef wid xs st \<noteq> None"
  using assms
proof (induction xs arbitrary: st)
  case Nil
  then show ?case by simp
next
  case (Cons x xs)
  obtain stg an ds where x: "x = (stg, an, ds)" by (cases x) auto
  have "tasks st stg \<noteq> None" using Cons.prems by (auto simp: x)
  then obtain b s1 where s1: "run_stage orch wdef wid (stg, an, ds) st = Some (b, s1)"
    using run_stage_total[OF Cons.prems(1)] by fastforce
  have "\<forall>s\<in>fst ` set wdef. tasks s1 s \<noteq> None"
    using Cons.prems(1) run_stage_dom[OF s1] by simp
  moreover have "fst ` set xs \<subseteq> fst ` set wdef" using Cons.prems(2) by auto
  ultimately have "run_stages orch wdef wid xs s1 \<noteq> None" by (rule Cons.IH)
  then show ?case using s1 by (auto simp: x)
qed

lemma run_stages_other:
  assumes "run_stages orch wdef wid xs st = Some (brk, st')"
    and "X \<notin> fst ` set xs" and "tasks st X = Some t"
  shows "\<exists>t'. tasks st' X = Some t' \<and> dependencies t' = dependencies t \<and>
              (t' = t \<or> (status t' = PENDING \<and> (\<exists>s. FAILURE_ROUTING s = Some X)))"
  using assms
proof (induction xs arbitrary: st t)
  case Nil
  then show ?case by simp
next
  case (Cons x xs)
  obtain stg an ds where x: "x = (stg, an, ds)" by (cases x) auto
  from Cons.prems(1) obtain b s1 where s1: "run_stage orch wdef wid (stg, an, ds) st = Some (b, s1)"
    by (auto simp: x split: option.splits)
  have ne: "X \<noteq> stg" using Cons.prems(2) by (auto simp: x)
  from run_stage_other[OF s1 ne Cons.prems(3)] obtain t1 where
    t1: "tasks s1 X = Some t1" "dependencies t1 = dependencies t"
        "t1 = t \<or> (status t1 = PENDING \<and> (\<exists>s. FAILURE_ROUTING s = Some X))" by blast
  show ?case
  proof (cases b)
    case True
    with Cons.prems(1) s1 have "st' = s1" by (simp add: x)
    then show ?thesis using t1 by auto
  next
    case False
    with Cons.prems(1) s1 have r: "run_stages orch wdef wid xs s1 = Some (brk, st')" by (simp add: x)
    have "X \<notin> fst ` set xs" using Cons.prems(2) by auto
    from Cons.IH[OF r this t1(1)] obtain t' where
      "tasks st' X = Some t'" "dependencies t' = dependencies t1"
      "t' = t1 \<or> (status t' = PENDING \<and> (\<exists>s. FAILURE_ROUTING s = Some X))" by blast
    then show ?thesis using t1 by auto
  qed
qed

lemma run_stages_failed_list:
  assumes "run_stages orch wdef wid xs st = Some (brk, st')"
  shows "set (failed_stages st) \<subseteq> set (failed_stages st') \<and>
         set (failed_stages st') \<subseteq> set (failed_stages st) \<union> fst ` set xs"
  using assms
proof (induction xs arbitrary: st)
  case Nil
  then show ?case by simp
next
  case (Cons x xs)
  obtain stg an ds where x: "x = (stg, an, ds)" by (cases x) auto
  from Cons.prems(1) obtain b s1 where s1: "run_stage orch wdef wid (stg, an, ds) st = Some (b, s1)"
    by (auto simp: x split: option.splits)
  note f1 = run_stage_failed_list[OF s1]
  show ?case
  proof (cases b)
    case True
    with Cons.prems(1) s1 have "st' = s1" by (simp add: x)
    then show ?thesis using f1 by (auto simp: x)
  next
    case False
    with Cons.prems(1) s1 have r: "run_stages orch wdef wid xs s1 = Some (brk, st')" by (simp add: x)
    from Cons.IH[OF r] show ?thesis using f1 by (auto simp: x)
  qed
qed

lemma run_stages_append:
  "run_stages orch wdef wid (xs @ ys) st =
     (case run_stages orch wdef wid xs st of
        None \<Rightarrow> None
      | Some (brk, s) \<Rightarrow> if brk then Some (True, s) else run_stages orch wdef wid ys s)"
  by (induction xs arbitrary: st) (auto split: option.splits)

lemma add_task_apply:
  "add_task wid now m (stg, a, d) = m(stg \<mapsto> new_task wid now stg a d)"
  by (simp add: add_task_def)

lemma create_tasks_foldl_other:
  "s \<notin> fst ` set xs \<Longrightarrow>
     foldl (add_task wid now) m0 xs s = m0 s"
  by (induction xs arbitrary: m0) (auto simp: add_task_apply)

lemma create_tasks_foldl_mem:
  "distinct (map fst xs) \<Longrightarrow> (s, a, d) \<in> set xs \<Longrightarrow>
     foldl (add_task wid now) m0 xs s
       = Some (new_task wid now s a d)"
proof (induction xs arbitrary: m0)
  case Nil
  then show ?case by simp
next
  case (Cons x xs)
  show ?case
  proof (cases "x = (s, a, d)")
    case True
    then have "s \<notin> fst ` set xs" using Cons.prems(1) by auto
    then show ?thesis using True by (simp add: create_tasks_foldl_other add_task_apply)
  next
    case False
    then have "(s, a, d) \<in> set xs" using Cons.prems(2) by auto
    moreover have "distinct (map fst xs)" using Cons.prems(1) by simp
    ultimately show ?thesis using Cons.IH by (cases x) simp
  qed
qed

lemma create_tasks_mem:
  "distinct (map fst wdef) \<Longrightarrow> (s, a, d) \<in> set wdef \<Longrightarrow>
     create_tasks wid now wdef s = Some (new_task wid now s a d)"
  by (simp add: create_tasks_def create_tasks_foldl_mem)

lemma create_tasks_foldl_dom:
  "foldl (add_task wid now) m0 xs s = None
     \<longleftrightarrow> m0 s = None \<and> s \<notin> fst ` set xs"
  by (induction xs arbitrary: m0) (auto simp: add_task_apply split: if_splits)

lemma create_tasks_dom:
  "create_tasks wid now wdef s = None \<longleftrightarrow> s \<notin> fst ` set wdef"
  by (simp add: create_tasks_def create_tasks_foldl_dom)

lemma initial_state_fields [simp]:
  "tasks (initial_state orch request wid wdef) = create_tasks wid (clock (orch_stores orch)) wdef"
  "failed_stages (initial_state orch request wid wdef) = []"
  "completed_stages (initial_state orch request wid wdef) = []"
  by (simp_all add: initial_state_def)

lemma run_workflow_unfold:
  assumes "wdef \<noteq> []"
    and "run_stages orch wdef wid wdef (initial_state orch request wid wdef) = Some (brk, sF)"
  shows "\<exists>res orch'. run_workflow orch request (Some wdef) wid = Some (res, orch') \<and>
           success res = (failed_stages sF = []) \<and>
           stages_failed res = failed_stages sF \<and>
           stages_completed res = completed_stages sF \<and>
           active_workflows orch' wid = Some (tasks sF)"
  using assms by (simp add: run_workflow_def effective_workflow_def Let_def case_prod_beta)

lemma pending_until_end_of_pass:
  assumes "tasks s1 tg = Some tt" and "status tt = PENDING" and "tg \<notin> fst ` set rest"
    and "run_stages orch wdef wid rest s1 = Some (brk, st')"
  shows "map_option status (tasks st' tg) = Some PENDING"
  using run_stages_other[OF assms(4,3,1)] assms(2) by auto

lemma run_stage_completed_list:
  assumes "run_stage orch wdef wid (stg, an, ds) st = Some (brk, st')"
  shows "completed_stages st' = completed_stages st \<or>
         completed_stages st' = completed_stages st @ [stg]"
  using assms by (cases rule: run_stage_elim) auto

lemma run_stages_completed_list:
  assumes "run_stages orch wdef wid xs st = Some (brk, st')"
  shows "set (completed_stages st') \<subseteq> set (completed_stages st) \<union> fst ` set xs"
  using assms
proof (induction xs arbitrary: st)
  case Nil
  then show ?case by simp
next
  case (Cons x xs)
  obtain stg an ds where x: "x = (stg, an, ds)" by (cases x) auto
  from Cons.prems(1) obtain b s1 where s1: "run_stage orch wdef wid (stg, an, ds) st = Some (b, s1)"
    by (auto simp: x split: option.splits)
  note c1 = run_stage_completed_list[OF s1]
  show ?case
  proof (cases b)
    case True
    with Cons.prems(1) s1 have "st' = s1" by (simp add: x)
    then show ?thesis using c1 by (auto simp: x)
  next
    case False
    with Cons.prems(1) s1 have r: "run_stages orch wdef wid xs s1 = Some (brk, st')" by (simp add: x)
    from Cons.IH[OF r] show ?thesis using c1 by (auto simp: x)
  qed
qed

lemma run_stages_break_last:
  assumes "run_stages orch wdef wid xs st = Some (True, st')"
  shows "failed_stages st' \<noteq> [] \<and> last (failed_stages st') \<in> fst ` set xs"
  using assms
proof (induction xs arbitrary: st)
  case Nil
  then show ?case by simp
next
  case (Cons x xs)
  obtain stg an ds where x: "x = (stg, an, ds)" by (cases x) auto
  from Cons.prems(1) obtain b s1 where s1: "run_stage orch wdef wid (stg, an, ds) st = Some (b, s1)"
    by (auto simp: x split: option.splits)
  show ?case
  proof (cases b)
    case True
    with Cons.prems(1) s1 have "st' = s1" by (simp add: x)
    then show ?thesis using run_stage_failed_list[OF s1] True by (auto simp: x)
  next
    case False
    with Cons.prems(1) s1 have r: "run_stages orch wdef wid xs s1 = Some (True, st')" by (simp add: x)
    from Cons.IH[OF r] show ?thesis by (auto simp: x)
  qed
qed

lemma routing_target_differs: "FAILURE_ROUTING stg = Some tg \<Longrightarrow> tg \<noteq> stg"
  by (cases stg) auto

lemma execute_success:
  assumes "\<not> has_error (in_validate inp)" and "\<not> has_error (out_validate out)"
    and "execute_impl ag inp (task_noted ag inp st) = (Inr out, st2)"
  shows "execute ag inp st = (Inr out, agent_record_success ag (in_request_id inp) (clock st) st2)"
  using assms by (simp add: execute_def Let_def case_prod_beta task_noted_def)

lemma execute_good_output:
  assumes "\<not> has_error (in_validate inp)"
  shows "\<exists>sto. execute (returning_agent n lvl (sample_output [])) inp st =
           (Inr (sample_output []), sto)"
  using assms
    execute_success[of inp "sample_output []" "returning_agent n lvl (sample_output [])" st
                       "task_noted (returning_agent n lvl (sample_output [])) inp st"]
  by (simp add: returning_agent_def sample_output_def has_error_def)

lemma execute_bad_output:
  assumes "\<not> has_error (in_validate inp)" and "has_error vs"
  shows "\<exists>sto. execute (returning_agent n lvl (sample_output vs)) inp st =
           (Inl (ContractViolationError
                  (''Output contract violation: '' @ py_list_repr (map message vs))), sto)"
  using assms
    execute_output_error[of inp "returning_agent n lvl (sample_output vs)" st "sample_output vs"]
  by (simp add: returning_agent_def sample_output_def)

lemma dispatch_bad_output:
  assumes "agents orch an = Some (returning_agent n lvl (sample_output vs))"
    and "\<not> has_error (in_validate inp)" and "has_error vs"
  shows "\<exists>e sto. dispatch orch an inp st = (Inl e, sto)"
  using assms execute_bad_output[of inp vs n lvl st] by (auto simp: dispatch_def)

lemma dispatch_good_output:
  assumes "agents orch an = Some (returning_agent n lvl (sample_output []))"
    and "\<not> has_error (in_validate inp)"
  shows "\<exists>sto. dispatch orch an inp st = (Inr (sample_output []), sto)"
  using assms execute_good_output[of inp n lvl st] by (auto simp: dispatch_def)

lemma failing_orch_input_ok:
  "\<not> has_error (in_validate (prepare_input failing_orch stg ctx outs))"
  by (simp add: failing_orch_def sample_orch_def sample_input_def has_error_def)

lemma failing_orch_agents:
  "agents failing_orch ''ImplementationAgent''
     = Some (returning_agent ''ImplementationAgent'' 5 (sample_output []))"
  "agents failing_orch ''ReviewerAgent''
     = Some (returning_agent ''ReviewerAgent'' 7
         (sample_output [error_violation ''REV-001'' ''Review output is invalid'']))"
  "agents failing_orch ''ProductAgent''
     = Some (returning_agent ''ProductAgent'' 9
         (sample_output [error_violation ''REQ-001'' ''Requirements cannot be empty'']))"
  by (simp_all add: failing_orch_def sample_agents_def)

lemma error_violation_has_error: "has_error [error_violation rid msg]"
  by (simp add: has_error_def error_violation_def)

lemma routing_step:
  assumes task: "tasks st stg = Some t0"
    and met: "deps_met wid (tasks st) (dependencies t0) wdef = Some True"
    and fails: "dispatch orch an (prepare_input orch stg (run_context st) (outputs st))
                  (run_stores st) = (Inl e, sto)"
    and own: "retry_count t0 < max_retries t0"
  shows
    "(fst (handle_failure stg (failed_task (running_task orch stg st t0) e sto)
            ((tasks st)(stg \<mapsto> failed_task (running_task orch stg st t0) e sto)) (run_context st))
        \<longleftrightarrow> (case FAILURE_ROUTING stg of None \<Rightarrow> False | Some tg \<Rightarrow> tasks st tg \<noteq> None)) \<and>
     (\<not> fst (handle_failure stg (failed_task (running_task orch stg st t0) e sto)
            ((tasks st)(stg \<mapsto> failed_task (running_task orch stg st t0) e sto)) (run_context st))
        \<longrightarrow> run_stages orch wdef wid ((stg, an, ds) # rest) st =
              Some (True, st\<lparr>tasks := (tasks st)(stg \<mapsto> failed_task (running_task orch stg st t0) e sto),
                              failed_stages := failed_stages st @ [stg], run_stores := sto\<rparr>)) \<and>
     (fst (handle_failure stg (failed_task (running_task orch stg st t0) e sto)
            ((tasks st)(stg \<mapsto> failed_task (running_task orch stg st t0) e sto)) (run_context st))
        \<longrightarrow> (\<exists>tg tt. FAILURE_ROUTING stg = Some tg \<and> tasks st tg = Some tt \<and>
               run_stages orch wdef wid ((stg, an, ds) # rest) st =
                 run_stages orch wdef wid rest
                   (st\<lparr>tasks := ((tasks st)(stg \<mapsto> failed_task (running_task orch stg st t0) e sto))
                                   (tg \<mapsto> tt\<lparr>status := PENDING, retry_count := retry_count tt + 1\<rparr>),
                       run_context := (run_context st)\<lparr>failure_context := Some
                          \<lparr>failed_stage = stage_value stg, fc_error = Some (error_str e),
                           fc_retry_count = retry_count tt + 1\<rparr>\<rparr>,
                       run_stores := sto\<rparr>) \<and>
               (\<forall>brk st'. tg \<notin> fst ` set rest \<and>
                    run_stages orch wdef wid ((stg, an, ds) # rest) st = Some (brk, st') \<longrightarrow>
                    map_option status (tasks st' tg) = Some PENDING)))"
proof (intro conjI impI)
  let ?ft = "failed_task (running_task orch stg st t0) e sto"
  let ?tsk = "(tasks st)(stg \<mapsto> ?ft)"
  have rc: "retry_count ?ft < max_retries ?ft"
    using own by (simp add: failed_task_def running_task_def)
  have err: "error ?ft = Some (error_str e)"
    by (simp add: failed_task_def)
  show flag: "fst (handle_failure stg ?ft ?tsk (run_context st))
        \<longleftrightarrow> (case FAILURE_ROUTING stg of None \<Rightarrow> False | Some tg \<Rightarrow> tasks st tg \<noteq> None)"
    using rc routing_target_differs[of stg]
    by (auto simp: handle_failure_flag split: option.splits)
  obtain h tsk3 ctx3 where hf: "handle_failure stg ?ft ?tsk (run_context st) = (h, tsk3, ctx3)"
    by (cases "handle_failure stg ?ft ?tsk (run_context st)")
  note step = run_stage_failed[OF task met fails hf, of ds]
  {
    assume "\<not> fst (handle_failure stg ?ft ?tsk (run_context st))"
    then have "\<not> h" using hf by simp
    moreover have "tsk3 = ?tsk" "ctx3 = run_context st"
      using handle_failure_effect[OF hf] \<open>\<not> h\<close> by auto
    ultimately show "run_stages orch wdef wid ((stg, an, ds) # rest) st =
              Some (True, st\<lparr>tasks := ?tsk, failed_stages := failed_stages st @ [stg], run_stores := sto\<rparr>)"
      using step by simp
  }
  {
    assume "fst (handle_failure stg ?ft ?tsk (run_context st))"
    then have h: "h" using hf by simp
    from handle_failure_effect[OF hf] h obtain tg tt where
      tg: "FAILURE_ROUTING stg = Some tg" "?tsk tg = Some tt"
          "tsk3 = ?tsk(tg \<mapsto> tt\<lparr>status := PENDING, retry_count := retry_count tt + 1\<rparr>)"
      by auto
    have ne: "tg \<noteq> stg" using tg(1) by (rule routing_target_differs)
    then have tt: "tasks st tg = Some tt" using tg(2) by simp
    have ctx3: "ctx3 = (run_context st)\<lparr>failure_context := Some
                          \<lparr>failed_stage = stage_value stg, fc_error = Some (error_str e),
                           fc_retry_count = retry_count tt + 1\<rparr>\<rparr>"
      using hf tg(1,2) rc err by (simp add: handle_failure_def Let_def)
    let ?s1 = "st\<lparr>tasks := ?tsk(tg \<mapsto> tt\<lparr>status := PENDING, retry_count := retry_count tt + 1\<rparr>),
                       run_context := (run_context st)\<lparr>failure_context := Some
                          \<lparr>failed_stage = stage_value stg, fc_error = Some (error_str e),
                           fc_retry_count = retry_count tt + 1\<rparr>\<rparr>,
                       run_stores := sto\<rparr>"
    have eq: "run_stages orch wdef wid ((stg, an, ds) # rest) st = run_stages orch wdef wid rest ?s1"
      using step h tg(3) ctx3 by simp
    have pend: "\<forall>brk st'. tg \<notin> fst ` set rest \<and>
                    run_stages orch wdef wid ((stg, an, ds) # rest) st = Some (brk, st') \<longrightarrow>
                    map_option status (tasks st' tg) = Some PENDING"
    proof (intro allI impI)
      fix brk st'
      assume a: "tg \<notin> fst ` set rest \<and>
                    run_stages orch wdef wid ((stg, an, ds) # rest) st = Some (brk, st')"
      then have r: "run_stages orch wdef wid rest ?s1 = Some (brk, st')" using eq by simp
      have "tasks ?s1 tg = Some (tt\<lparr>status := PENDING, retry_count := retry_count tt + 1\<rparr>)"
        by simp
      moreover have "status (tt\<lparr>status := PENDING, retry_count := retry_count tt + 1\<rparr>) = PENDING"
        by simp
      ultimately show "map_option status (tasks st' tg) = Some PENDING"
        using pending_until_end_of_pass[OF _ _ _ r] a by blast
    qed
    show "\<exists>tg tt. FAILURE_ROUTING stg = Some tg \<and> tasks st tg = Some tt \<and>
               run_stages orch wdef wid ((stg, an, ds) # rest) st =
                 run_stages orch wdef wid rest
                   (st\<lparr>tasks := ?tsk(tg \<mapsto> tt\<lparr>status := PENDING, retry_count := retry_count tt + 1\<rparr>),
                       run_context := (run_context st)\<lparr>failure_context := Some
                          \<lparr>failed_stage = stage_value stg, fc_error = Some (error_str e),
                           fc_retry_count = retry_count tt + 1\<rparr>\<rparr>,
                       run_stores := sto\<rparr>) \<and>
               (\<forall>brk st'. tg \<notin> fst ` set rest \<and>
                    run_stages orch wdef wid ((stg, an, ds) # rest) st = Some (brk, st') \<longrightarrow>
                    map_option status (tasks st' tg) = Some PENDING)"
      using tg(1) tt eq pend by blast
  }
qed

subsection \<open>Failure routing\<close>

text \<open>
  C1, as the code has it. Let a stage of a run be dispatched and fail, and let no retry
  limit be reached: the retry counts of the task of the failing stage and of the task of
  its routing target are below \<^verbatim>\<open>max_retries\<close> (3 for every task that \<^verbatim>\<open>run_workflow\<close>
  creates). Then \<^verbatim>\<open>_handle_failure\<close> returns \<^verbatim>\<open>False\<close> exactly when the failing stage has no
  routing target in the static table (review, build_test and integration go to
  implementation, final_approval goes to architecture) or the target stage has no task
  in the run. In that case the failing stage is appended to the failed stages and the
  loop is left at once, whatever entries remain. Otherwise the task of the target is
  reset to pending, its \<^verbatim>\<open>retry_count\<close> is incremented, the failure context (the name of
  the failed stage, the error, the new retry count) is put into the run context, and
  the loop goes on with the remaining entries only: it does not start again from the
  target stage, whose task is still pending at the end of the pass when the stage is not
  among the remaining entries.
\<close>

theorem failure_routing_outcome:
  assumes task: "tasks st stg = Some t0"
    and met: "deps_met wid (tasks st) (dependencies t0) wdef = Some True"
    and fails: "dispatch orch an (prepare_input orch stg (run_context st) (outputs st))
                  (run_stores st) = (Inl e, sto)"
    and own: "retry_count t0 < max_retries t0"
    and target: "case FAILURE_ROUTING stg of
                   None \<Rightarrow> True
                 | Some tg \<Rightarrow> (case tasks st tg of
                                None \<Rightarrow> True
                              | Some tt \<Rightarrow> retry_count tt < max_retries tt)"
  shows
    "let task = failed_task (running_task orch stg st t0) e sto;
         tsk = (tasks st)(stg \<mapsto> task);
         routed = fst (handle_failure stg task tsk (run_context st))
     in (routed \<longleftrightarrow>
           (case FAILURE_ROUTING stg of None \<Rightarrow> False | Some tg \<Rightarrow> tasks st tg \<noteq> None)) \<and>
        (\<forall>tg. FAILURE_ROUTING stg = Some tg \<longleftrightarrow>
           (stg \<in> {REVIEW, BUILD_TEST, INTEGRATION} \<and> tg = IMPLEMENTATION) \<or>
           (stg = FINAL_APPROVAL \<and> tg = ARCHITECTURE)) \<and>
        (\<not> routed \<longrightarrow>
           run_stages orch wdef wid ((stg, an, ds) # rest) st =
             Some (True, st\<lparr>tasks := tsk, failed_stages := failed_stages st @ [stg],
                             run_stores := sto\<rparr>)) \<and>
        (routed \<longrightarrow>
           (\<exists>tg tt. FAILURE_ROUTING stg = Some tg \<and> tasks st tg = Some tt \<and>
              run_stages orch wdef wid ((stg, an, ds) # rest) st =
                run_stages orch wdef wid rest
                  (st\<lparr>tasks := tsk(tg \<mapsto> tt\<lparr>status := PENDING,
                                           retry_count := retry_count tt + 1\<rparr>),
                      run_context := (run_context st)\<lparr>failure_context := Some
                         \<lparr>failed_stage = stage_value stg, fc_error = Some (error_str e),
                          fc_retry_count = retry_count tt + 1\<rparr>\<rparr>,
                      run_stores := sto\<rparr>) \<and>
              (\<forall>brk st'. tg \<notin> fst ` set rest \<and>
                   run_stages orch wdef wid ((stg, an, ds) # rest) st = Some (brk, st') \<longrightarrow>
                   map_option status (tasks st' tg) = Some PENDING)))"
  unfolding Let_def
  using routing_step[OF task met fails own, of ds rest] routing_table
  by blast

theorem failure_routing_outcome_witness:
  "run_workflow failing_orch ''Add a feature'' (Some implement_review_workflow) ''wf3'' \<noteq> None \<and>
   stages_completed (fst (the (run_workflow failing_orch ''Add a feature''
       (Some implement_review_workflow) ''wf3''))) = [IMPLEMENTATION] \<and>
   stages_failed (fst (the (run_workflow failing_orch ''Add a feature''
       (Some implement_review_workflow) ''wf3''))) = [] \<and>
   final_status (snd (the (run_workflow failing_orch ''Add a feature''
       (Some implement_review_workflow) ''wf3''))) ''wf3'' REVIEW = Some FAILED \<and>
   final_status (snd (the (run_workflow failing_orch ''Add a feature''
       (Some implement_review_workflow) ''wf3''))) ''wf3'' IMPLEMENTATION = Some PENDING \<and>
   run_workflow failing_orch ''Create a calculator'' (Some two_stage_workflow) ''wf1'' \<noteq> None \<and>
   stages_failed (fst (the (run_workflow failing_orch ''Create a calculator''
       (Some two_stage_workflow) ''wf1''))) = [REQUIREMENTS] \<and>
   stages_completed (fst (the (run_workflow failing_orch ''Create a calculator''
       (Some two_stage_workflow) ''wf1''))) = []"
proof -
  \<comment> \<open>The review fails after the implementation and is routed back to it.\<close>
  let ?w = implement_review_workflow
  let ?st0 = "initial_state failing_orch ''Add a feature'' ''wf3'' ?w"
  let ?ti = "new_task ''wf3'' (clock (orch_stores failing_orch)) IMPLEMENTATION
               ''ImplementationAgent'' [] :: (unit, unit) WorkflowTask"
  let ?tr = "new_task ''wf3'' (clock (orch_stores failing_orch)) REVIEW
               ''ReviewerAgent'' [IMPLEMENTATION] :: (unit, unit) WorkflowTask"
  have dw: "distinct (map fst ?w)" by (simp add: implement_review_workflow_def)
  have ti: "tasks ?st0 IMPLEMENTATION = Some ?ti"
    using create_tasks_mem[OF dw, of IMPLEMENTATION "''ImplementationAgent''" "[]"]
    by (simp add: implement_review_workflow_def)
  have tr: "tasks ?st0 REVIEW = Some ?tr"
    using create_tasks_mem[OF dw, of REVIEW "''ReviewerAgent''" "[IMPLEMENTATION]"]
    by (simp add: implement_review_workflow_def)
  have m0: "deps_met ''wf3'' (tasks ?st0) (dependencies ?ti) ?w = Some True"
    by (simp add: implement_review_workflow_def new_task_def)
  obtain sto1 where d1: "dispatch failing_orch ''ImplementationAgent''
        (prepare_input failing_orch IMPLEMENTATION (run_context ?st0) (outputs ?st0))
        (run_stores ?st0) = (Inr (sample_output []), sto1)"
    using dispatch_good_output[OF failing_orch_agents(1) failing_orch_input_ok] by blast
  let ?st1 = "?st0\<lparr>tasks := (tasks ?st0)(IMPLEMENTATION \<mapsto>
                  (running_task failing_orch IMPLEMENTATION ?st0 ?ti)\<lparr>output_data := Some (sample_output []),
                     status := COMPLETED, completed_at := Some (clock sto1)\<rparr>),
                completed_stages := completed_stages ?st0 @ [IMPLEMENTATION],
                outputs := (outputs ?st0)(IMPLEMENTATION \<mapsto> sample_output []),
                run_context := update_context failing_orch IMPLEMENTATION (sample_output [])
                                 (run_context ?st0),
                run_stores := sto1\<rparr>"
  have s1: "run_stage failing_orch ?w ''wf3'' (IMPLEMENTATION, ''ImplementationAgent'', []) ?st0
              = Some (False, ?st1)"
    by (rule run_stage_completed[OF ti m0 d1])
  have tr1: "tasks ?st1 REVIEW = Some ?tr" using tr by simp
  have m1: "deps_met ''wf3'' (tasks ?st1) (dependencies ?tr) ?w = Some True"
    by (simp add: implement_review_workflow_def new_task_def ti)
  obtain e sto2 where d2: "dispatch failing_orch ''ReviewerAgent''
        (prepare_input failing_orch REVIEW (run_context ?st1) (outputs ?st1))
        (run_stores ?st1) = (Inl e, sto2)"
    using dispatch_bad_output[OF failing_orch_agents(2) failing_orch_input_ok
            error_violation_has_error] by blast
  have own1: "retry_count ?tr < max_retries ?tr" by (simp add: new_task_def)
  have tg1: "case FAILURE_ROUTING REVIEW of None \<Rightarrow> True
             | Some tg \<Rightarrow> (case tasks ?st1 tg of None \<Rightarrow> True
                           | Some tt \<Rightarrow> retry_count tt < max_retries tt)"
    by (simp add: running_task_def new_task_def)
  note r1 = failure_routing_outcome[OF tr1 m1 d2 own1 tg1, of "[IMPLEMENTATION]" "[]", unfolded Let_def]
  have routed1: "fst (handle_failure REVIEW (failed_task (running_task failing_orch REVIEW ?st1 ?tr) e sto2)
            ((tasks ?st1)(REVIEW \<mapsto> failed_task (running_task failing_orch REVIEW ?st1 ?tr) e sto2))
            (run_context ?st1))"
    using r1 by simp
  with r1 obtain tg tt where
    tg: "FAILURE_ROUTING REVIEW = Some tg" "tasks ?st1 tg = Some tt"
    and run1: "run_stages failing_orch ?w ''wf3'' [(REVIEW, ''ReviewerAgent'', [IMPLEMENTATION])] ?st1 =
        run_stages failing_orch ?w ''wf3'' []
          (?st1\<lparr>tasks := ((tasks ?st1)(REVIEW \<mapsto> failed_task (running_task failing_orch REVIEW ?st1 ?tr) e sto2))
                          (tg \<mapsto> tt\<lparr>status := PENDING, retry_count := retry_count tt + 1\<rparr>),
                 run_context := (run_context ?st1)\<lparr>failure_context := Some
                    \<lparr>failed_stage = stage_value REVIEW, fc_error = Some (error_str e),
                     fc_retry_count = retry_count tt + 1\<rparr>\<rparr>,
                 run_stores := sto2\<rparr>)"
    by blast
  have tgI: "tg = IMPLEMENTATION" using tg(1) by simp
  let ?st2 = "?st1\<lparr>tasks := ((tasks ?st1)(REVIEW \<mapsto> failed_task (running_task failing_orch REVIEW ?st1 ?tr) e sto2))
                          (tg \<mapsto> tt\<lparr>status := PENDING, retry_count := retry_count tt + 1\<rparr>),
                 run_context := (run_context ?st1)\<lparr>failure_context := Some
                    \<lparr>failed_stage = stage_value REVIEW, fc_error = Some (error_str e),
                     fc_retry_count = retry_count tt + 1\<rparr>\<rparr>,
                 run_stores := sto2\<rparr>"
  have "run_stages failing_orch ?w ''wf3'' ?w ?st0 = Some (False, ?st2)"
    using s1 run1 by (simp add: implement_review_workflow_def)
  moreover have "?w \<noteq> []" by (simp add: implement_review_workflow_def)
  ultimately obtain res orch' where
    r: "run_workflow failing_orch ''Add a feature'' (Some ?w) ''wf3'' = Some (res, orch')"
       "stages_failed res = failed_stages ?st2" "stages_completed res = completed_stages ?st2"
       "active_workflows orch' ''wf3'' = Some (tasks ?st2)"
    using run_workflow_unfold by blast
  have part1: "run_workflow failing_orch ''Add a feature'' (Some ?w) ''wf3'' \<noteq> None \<and>
     stages_completed (fst (the (run_workflow failing_orch ''Add a feature'' (Some ?w) ''wf3'')))
       = [IMPLEMENTATION] \<and>
     stages_failed (fst (the (run_workflow failing_orch ''Add a feature'' (Some ?w) ''wf3''))) = [] \<and>
     final_status (snd (the (run_workflow failing_orch ''Add a feature'' (Some ?w) ''wf3'')))
       ''wf3'' REVIEW = Some FAILED \<and>
     final_status (snd (the (run_workflow failing_orch ''Add a feature'' (Some ?w) ''wf3'')))
       ''wf3'' IMPLEMENTATION = Some PENDING"
    using r tgI by (simp add: final_status_def failed_task_def)
  \<comment> \<open>The requirements stage fails and has no routing target.\<close>
  let ?v = two_stage_workflow
  let ?su0 = "initial_state failing_orch ''Create a calculator'' ''wf1'' ?v"
  let ?tq = "new_task ''wf1'' (clock (orch_stores failing_orch)) REQUIREMENTS
               ''ProductAgent'' [] :: (unit, unit) WorkflowTask"
  have dv: "distinct (map fst ?v)" by (simp add: two_stage_workflow_def)
  have tq: "tasks ?su0 REQUIREMENTS = Some ?tq"
    using create_tasks_mem[OF dv, of REQUIREMENTS "''ProductAgent''" "[]"]
    by (simp add: two_stage_workflow_def)
  have mq: "deps_met ''wf1'' (tasks ?su0) (dependencies ?tq) ?v = Some True"
    by (simp add: two_stage_workflow_def new_task_def)
  obtain e' sto3 where d3: "dispatch failing_orch ''ProductAgent''
        (prepare_input failing_orch REQUIREMENTS (run_context ?su0) (outputs ?su0))
        (run_stores ?su0) = (Inl e', sto3)"
    using dispatch_bad_output[OF failing_orch_agents(3) failing_orch_input_ok
            error_violation_has_error] by blast
  have ownq: "retry_count ?tq < max_retries ?tq" by (simp add: new_task_def)
  have tgq: "case FAILURE_ROUTING REQUIREMENTS of None \<Rightarrow> True
             | Some tg \<Rightarrow> (case tasks ?su0 tg of None \<Rightarrow> True
                           | Some tt \<Rightarrow> retry_count tt < max_retries tt)"
    by simp
  note r2 = failure_routing_outcome[OF tq mq d3 ownq tgq, of "[]"
              "[(ARCHITECTURE, ''ArchitectAgent'', [REQUIREMENTS])]", unfolded Let_def]
  let ?su1 = "?su0\<lparr>tasks := (tasks ?su0)(REQUIREMENTS \<mapsto>
                  failed_task (running_task failing_orch REQUIREMENTS ?su0 ?tq) e' sto3),
                failed_stages := failed_stages ?su0 @ [REQUIREMENTS], run_stores := sto3\<rparr>"
  have "run_stages failing_orch ?v ''wf1'' ?v ?su0 = Some (True, ?su1)"
    using r2 by (simp add: two_stage_workflow_def)
  moreover have "?v \<noteq> []" by (simp add: two_stage_workflow_def)
  ultimately obtain res2 orch2 where
    q: "run_workflow failing_orch ''Create a calculator'' (Some ?v) ''wf1'' = Some (res2, orch2)"
       "stages_failed res2 = failed_stages ?su1" "stages_completed res2 = completed_stages ?su1"
    using run_workflow_unfold by blast
  have part2: "run_workflow failing_orch ''Create a calculator'' (Some ?v) ''wf1'' \<noteq> None \<and>
     stages_failed (fst (the (run_workflow failing_orch ''Create a calculator'' (Some ?v) ''wf1'')))
       = [REQUIREMENTS] \<and>
     stages_completed (fst (the (run_workflow failing_orch ''Create a calculator'' (Some ?v) ''wf1'')))
       = []"
    using q by simp
  show ?thesis using part1 part2 by blast
qed

text \<open>
  The claim C1 as it is written fails: when the review stage fails in a run without an
  implementation stage, the review stage has a routing target in the table and no task
  has used up its retries, and yet routing returns \<^verbatim>\<open>False\<close>.
\<close>

theorem missing_target_counterexample:
  "FAILURE_ROUTING REVIEW = Some IMPLEMENTATION \<and>
   review_only_tasks IMPLEMENTATION = None \<and>
   retry_count review_failed_task < max_retries review_failed_task \<and>
   \<not> fst (handle_failure REVIEW review_failed_task review_only_tasks sample_context)"
  by (simp add: handle_failure_def review_only_tasks_def review_failed_task_def new_task_def)

text \<open>
  The retry guard of \<^verbatim>\<open>_handle_failure\<close> reads the task of the failing stage, while the
  count that routing increments is the one of the target. A target that has already
  been reset three times is therefore reset once more, and its count becomes 4. The
  theorem above leaves this case out: it speaks of runs in which no count has reached
  \<^verbatim>\<open>max_retries\<close>.
\<close>

lemma retry_guard_reads_failing_task:
  "FAILURE_ROUTING REVIEW = Some IMPLEMENTATION \<and>
   map_option retry_count (routing_tasks 3 IMPLEMENTATION) = Some 3 \<and>
   map_option max_retries (routing_tasks 3 IMPLEMENTATION) = Some 3 \<and>
   fst (handle_failure REVIEW review_failed_task (routing_tasks 3) sample_context) \<and>
   map_option retry_count
     (fst (snd (handle_failure REVIEW review_failed_task (routing_tasks 3) sample_context))
        IMPLEMENTATION) = Some 4"
  by (simp add: handle_failure_def routing_tasks_def review_failed_task_def
        implementation_task_def sample_context_def new_task_def Let_def)

subsection \<open>A contract violation in a stage that another stage depends on\<close>

lemma contract_violation_run:
  assumes wdef: "wdef = pre @ (A, agA, dA) # mid @ (B, agB, dB) # rest"
    and dist: "distinct (map fst wdef)"
    and dep: "A \<in> set dB"
    and pre: "run_stages orch wdef wid pre (initial_state orch request wid wdef) = Some (False, st)"
    and met: "deps_met wid (tasks st) (map (task_key wid) dA) wdef = Some True"
    and agent: "agents orch agA = Some ag"
    and raise: "execute ag (prepare_input orch A (run_context st) (outputs st)) (run_stores st)
                  = (Inl (ContractViolationError m), sto)"
  shows "\<exists>res orch' tks.
           run_workflow orch request (Some wdef) wid = Some (res, orch') \<and>
           active_workflows orch' wid = Some tks \<and>
           \<not> success res \<and>
           B \<notin> set (stages_completed res) \<and>
           (if routable A wdef
            then A \<notin> set (stages_failed res) \<and>
                 (B \<in> set (stages_failed res) \<and>
                    (map_option status (tks B) = Some BLOCKED \<or>
                     map_option status (tks B) = Some PENDING \<and> B \<in> {IMPLEMENTATION, ARCHITECTURE})
                  \<or>
                  last (stages_failed res) \<in> fst ` set mid \<and>
                    B \<notin> set (stages_failed res) \<and>
                    map_option status (tks B) = Some PENDING)
            else stages_failed res = failed_stages st @ [A] \<and>
                 stages_completed res = completed_stages st \<and>
                 map_option status (tks A) = Some FAILED \<and>
                 map_option status (tks B) = Some PENDING)"
proof -
  let ?now = "clock (orch_stores orch)"
  let ?st0 = "initial_state orch request wid wdef"
  have ne: "wdef \<noteq> []" using wdef by simp
  have stages: "fst ` set wdef = fst ` set pre \<union> {A, B} \<union> fst ` set mid \<union> fst ` set rest"
    using wdef by auto
  have Anp: "A \<notin> fst ` set pre" and Bnp: "B \<notin> fst ` set pre" and AB: "A \<noteq> B"
    and Anm: "A \<notin> fst ` set mid" and Bnm: "B \<notin> fst ` set mid"
    and Anr: "A \<notin> fst ` set rest" and Bnr: "B \<notin> fst ` set rest"
    using dist wdef by auto
  have dom0: "tasks ?st0 s = None \<longleftrightarrow> s \<notin> fst ` set wdef" for s
    by (simp add: create_tasks_dom)
  have domst: "tasks st s = None \<longleftrightarrow> s \<notin> fst ` set wdef" for s
    using run_stages_dom[OF pre] dom0 by simp
  have tA0: "tasks ?st0 A = Some (new_task wid ?now A agA dA)"
    using create_tasks_mem[OF dist, of A agA dA] wdef by simp
  have tB0: "tasks ?st0 B = Some (new_task wid ?now B agB dB)"
    using create_tasks_mem[OF dist, of B agB dB] wdef by simp
  from run_stages_other[OF pre Anp tA0] obtain tA where tA: "tasks st A = Some tA"
    and depA: "dependencies tA = map (task_key wid) dA"
    and tA': "tA = new_task wid ?now A agA dA \<or> (\<exists>s. FAILURE_ROUTING s = Some A)"
    by (auto simp: new_task_def)
  from run_stages_other[OF pre Bnp tB0] obtain tB where tB: "tasks st B = Some tB"
    and depB: "dependencies tB = map (task_key wid) dB" and stB: "status tB = PENDING"
    by (auto simp: new_task_def)
  have failed_st: "set (failed_stages st) \<subseteq> fst ` set pre"
    using run_stages_failed_list[OF pre] by simp
  have completed_st: "set (completed_stages st) \<subseteq> fst ` set pre"
    using run_stages_completed_list[OF pre] by simp
  let ?inp = "prepare_input orch A (run_context st) (outputs st)"
  let ?ft = "failed_task (running_task orch A st tA) (ContractViolationError m) sto"
  have disp: "dispatch orch agA ?inp (run_stores st) = (Inl (ContractViolationError m), sto)"
    using agent raise by (simp add: dispatch_def)
  have metA: "deps_met wid (tasks st) (dependencies tA) wdef = Some True"
    using met depA by simp
  have flag: "fst (handle_failure A ?ft ((tasks st)(A \<mapsto> ?ft)) (run_context st)) \<longleftrightarrow> routable A wdef"
  proof (cases "FAILURE_ROUTING A")
    case None
    then show ?thesis by (simp add: handle_failure_flag routable_def)
  next
    case (Some tg)
    then have "\<not> (\<exists>s. FAILURE_ROUTING s = Some A)"
      using routing_target_no_entry by fastforce
    with tA' have "tA = new_task wid ?now A agA dA" by simp
    then have "retry_count ?ft < max_retries ?ft"
      by (simp add: failed_task_def running_task_def new_task_def)
    moreover have "((tasks st)(A \<mapsto> ?ft)) tg \<noteq> None \<longleftrightarrow> tg \<in> fst ` set wdef"
      using domst[of tg] stages by auto
    ultimately show ?thesis using Some by (simp add: handle_failure_flag routable_def)
  qed
  obtain h tsk3 ctx3 where hf:
    "handle_failure A ?ft ((tasks st)(A \<mapsto> ?ft)) (run_context st) = (h, tsk3, ctx3)"
    by (cases "handle_failure A ?ft ((tasks st)(A \<mapsto> ?ft)) (run_context st)")
  have h: "h \<longleftrightarrow> routable A wdef" using flag hf by simp
  note stepA = run_stage_failed[OF tA metA disp hf, of dA]
  note eff = handle_failure_effect[OF hf]
  show ?thesis
  proof (cases "routable A wdef")
    case False
    let ?sA = "st\<lparr>tasks := tsk3, failed_stages := failed_stages st @ [A],
                   run_context := ctx3, run_stores := sto\<rparr>"
    have tsk3: "tsk3 = (tasks st)(A \<mapsto> ?ft)" using eff h False by auto
    have "run_stage orch wdef wid (A, agA, dA) st = Some (True, ?sA)"
      using stepA h False by simp
    then have "run_stages orch wdef wid ((A, agA, dA) # mid @ (B, agB, dB) # rest) st = Some (True, ?sA)"
      by simp
    then have "run_stages orch wdef wid wdef ?st0 = Some (True, ?sA)"
      using pre by (simp add: wdef run_stages_append)
    from run_workflow_unfold[OF ne this] obtain res orch' where
      r: "run_workflow orch request (Some wdef) wid = Some (res, orch')"
         "success res = (failed_stages ?sA = [])" "stages_failed res = failed_stages ?sA"
         "stages_completed res = completed_stages ?sA" "active_workflows orch' wid = Some (tasks ?sA)"
      by blast
    have "map_option status (tasks ?sA A) = Some FAILED"
      by (simp add: tsk3 failed_task_def)
    moreover have "map_option status (tasks ?sA B) = Some PENDING"
      using tB stB AB by (simp add: tsk3)
    moreover have "B \<notin> set (completed_stages ?sA)"
      using completed_st Bnp by auto
    ultimately show ?thesis using r False by auto
  next
    case True
    let ?sA = "st\<lparr>tasks := tsk3, run_context := ctx3, run_stores := sto\<rparr>"
    have sA: "run_stage orch wdef wid (A, agA, dA) st = Some (False, ?sA)"
      using stepA h True by simp
    have domA: "tasks ?sA s = None \<longleftrightarrow> s \<notin> fst ` set wdef" for s
      using run_stage_dom[OF sA] domst by simp
    from eff h True obtain tg tt where
      tsk3: "tsk3 = ((tasks st)(A \<mapsto> ?ft))(tg \<mapsto> tt\<lparr>status := PENDING, retry_count := retry_count tt + 1\<rparr>)"
      by auto
    obtain tA1 where tA1: "tasks ?sA A = Some tA1" "status tA1 \<noteq> COMPLETED"
      by (cases "tg = A") (simp_all add: tsk3 failed_task_def)
    from run_stage_other[OF sA AB[symmetric] tB] stB obtain tB1 where
      tB1: "tasks ?sA B = Some tB1" "dependencies tB1 = dependencies tB" "status tB1 = PENDING"
      by auto
    have "\<forall>s\<in>fst ` set wdef. tasks ?sA s \<noteq> None" using domA by blast
    moreover have "fst ` set mid \<subseteq> fst ` set wdef" using stages by auto
    ultimately have "run_stages orch wdef wid mid ?sA \<noteq> None"
      by (rule run_stages_total)
    then obtain bm sM where sM: "run_stages orch wdef wid mid ?sA = Some (bm, sM)" by auto
    have domM: "tasks sM s = None \<longleftrightarrow> s \<notin> fst ` set wdef" for s
      using run_stages_dom[OF sM] domA by simp
    from run_stages_other[OF sM Bnm tB1(1)] tB1 obtain tB2 where
      tB2: "tasks sM B = Some tB2" "dependencies tB2 = dependencies tB" "status tB2 = PENDING"
      by auto
    from run_stages_other[OF sM Anm tA1(1)] tA1(2) obtain tA2 where
      tA2: "tasks sM A = Some tA2" "status tA2 \<noteq> COMPLETED"
      by auto
    note flM = run_stages_failed_list[OF sM]
    note clM = run_stages_completed_list[OF sM]
    have failed_sA: "failed_stages ?sA = failed_stages st" by simp
    have completed_sA: "completed_stages ?sA = completed_stages st" by simp
    show ?thesis
    proof (cases bm)
      case True
      have "run_stages orch wdef wid (mid @ (B, agB, dB) # rest) ?sA = Some (True, sM)"
        using sM True by (simp add: run_stages_append)
      then have "run_stages orch wdef wid ((A, agA, dA) # mid @ (B, agB, dB) # rest) st = Some (True, sM)"
        using sA by simp
      then have "run_stages orch wdef wid wdef ?st0 = Some (True, sM)"
        using pre by (simp add: wdef run_stages_append)
      from run_workflow_unfold[OF ne this] obtain res orch' where
        r: "run_workflow orch request (Some wdef) wid = Some (res, orch')"
           "success res = (failed_stages sM = [])" "stages_failed res = failed_stages sM"
           "stages_completed res = completed_stages sM" "active_workflows orch' wid = Some (tasks sM)"
        by blast
      have "run_stages orch wdef wid mid ?sA = Some (True, sM)" using sM True by simp
      from run_stages_break_last[OF this]
      have bl: "failed_stages sM \<noteq> []" "last (failed_stages sM) \<in> fst ` set mid"
        by simp_all
      have "A \<notin> set (failed_stages sM)" "B \<notin> set (failed_stages sM)"
        using flM failed_st failed_sA Anp Bnp Anm Bnm by auto
      moreover have "B \<notin> set (completed_stages sM)"
        using clM completed_st completed_sA Bnp Bnm by auto
      moreover have "map_option status (tasks sM B) = Some PENDING"
        using tB2 by simp
      ultimately show ?thesis using r \<open>routable A wdef\<close> bl by auto
    next
      case False
      have "A \<in> fst ` set wdef" using stages by simp
      moreover have "task_key wid A \<in> set (dependencies tB2)"
        using dep depB tB2(2) by simp
      moreover have "map_option status (tasks sM A) \<noteq> Some COMPLETED"
        using tA2 by simp
      ultimately have "\<not> (\<forall>s\<in>fst ` set wdef. task_key wid s \<in> set (dependencies tB2) \<longrightarrow>
                     map_option status (tasks sM s) = Some COMPLETED)"
        by blast
      moreover have "\<forall>s\<in>fst ` set wdef. tasks sM s \<noteq> None" using domM by blast
      ultimately have dmB: "deps_met wid (tasks sM) (dependencies tB2) wdef = Some False"
        using deps_met_total[of wdef "tasks sM" wid "dependencies tB2"] by simp
      let ?sB = "sM\<lparr>tasks := (tasks sM)(B \<mapsto> tB2\<lparr>status := BLOCKED\<rparr>),
                      failed_stages := failed_stages sM @ [B]\<rparr>"
      have sB: "run_stage orch wdef wid (B, agB, dB) sM = Some (False, ?sB)"
        using run_stage_blocked[OF tB2(1) dmB] by simp
      have domB: "\<forall>s\<in>fst ` set wdef. tasks ?sB s \<noteq> None"
        using run_stage_dom[OF sB] domM by blast
      have "fst ` set rest \<subseteq> fst ` set wdef" using stages by auto
      with domB have "run_stages orch wdef wid rest ?sB \<noteq> None"
        by (rule run_stages_total)
      then obtain brk sF where sF: "run_stages orch wdef wid rest ?sB = Some (brk, sF)" by auto
      have "run_stages orch wdef wid ((B, agB, dB) # rest) sM = Some (brk, sF)"
        using sB sF by simp
      then have "run_stages orch wdef wid (mid @ (B, agB, dB) # rest) ?sA = Some (brk, sF)"
        using sM False by (simp add: run_stages_append)
      then have "run_stages orch wdef wid ((A, agA, dA) # mid @ (B, agB, dB) # rest) st = Some (brk, sF)"
        using sA by simp
      then have "run_stages orch wdef wid wdef ?st0 = Some (brk, sF)"
        using pre by (simp add: wdef run_stages_append)
      from run_workflow_unfold[OF ne this] obtain res orch' where
        r: "run_workflow orch request (Some wdef) wid = Some (res, orch')"
           "success res = (failed_stages sF = [])" "stages_failed res = failed_stages sF"
           "stages_completed res = completed_stages sF" "active_workflows orch' wid = Some (tasks sF)"
        by blast
      note fl = run_stages_failed_list[OF sF]
      note cl = run_stages_completed_list[OF sF]
      have Bin: "B \<in> set (failed_stages sF)" using fl by auto
      have Anot: "A \<notin> set (failed_stages sF)"
        using fl flM failed_st failed_sA Anp Anm Anr AB by auto
      have Bnc: "B \<notin> set (completed_stages sF)"
        using cl clM completed_st completed_sA Bnp Bnm Bnr by auto
      have "tasks ?sB B = Some (tB2\<lparr>status := BLOCKED\<rparr>)" by simp
      from run_stages_other[OF sF Bnr this] obtain t' where
        t': "tasks sF B = Some t'"
            "t' = tB2\<lparr>status := BLOCKED\<rparr> \<or> (status t' = PENDING \<and> (\<exists>s. FAILURE_ROUTING s = Some B))"
        by blast
      have "map_option status (tasks sF B) = Some BLOCKED \<or>
            map_option status (tasks sF B) = Some PENDING \<and> B \<in> {IMPLEMENTATION, ARCHITECTURE}"
        using t' by (auto simp: routing_table)
      then show ?thesis using r \<open>routable A wdef\<close> Bin Anot Bnc by auto
    qed
  qed
qed

text \<open>
  C2, as the code has it. Let stage B come after stage A in the workflow and declare a
  dependency on A, let the stages of the workflow be distinct, and let the run reach A,
  dispatch it, and A's worker raise a \<^verbatim>\<open>ContractViolationError\<close>. Then the run returns a
  result with \<^verbatim>\<open>success = False\<close>, and B is never executed: it is not among the completed
  stages. When routing cannot recover (A has no entry in the routing table, or its
  target is not a stage of the workflow), A is appended to \<^verbatim>\<open>stages_failed\<close> and the run
  halts there: A's task is failed, B is not attempted and its task stays pending; it is
  not marked blocked. When routing recovers, A is not in \<^verbatim>\<open>stages_failed\<close>. Then either B
  is marked blocked and B is in \<^verbatim>\<open>stages_failed\<close>, its task ending blocked (or pending
  again, when B is implementation or architecture and a later failure was routed to it);
  or the run halts at a stage between A and B, which is the last of \<^verbatim>\<open>stages_failed\<close>, and
  the task of B stays pending.
\<close>

theorem dependent_stage_after_contract_violation:
  assumes wdef: "wdef = pre @ (A, agA, dA) # mid @ (B, agB, dB) # rest"
    and dist: "distinct (map fst wdef)"
    and dep: "A \<in> set dB"
    and pre: "run_stages orch wdef wid pre (initial_state orch request wid wdef) = Some (False, st)"
    and met: "deps_met wid (tasks st) (map (task_key wid) dA) wdef = Some True"
    and agent: "agents orch agA = Some ag"
    and raise: "execute ag (prepare_input orch A (run_context st) (outputs st)) (run_stores st)
                  = (Inl (ContractViolationError m), sto)"
  shows "\<exists>res orch' tks.
           run_workflow orch request (Some wdef) wid = Some (res, orch') \<and>
           active_workflows orch' wid = Some tks \<and>
           \<not> success res \<and>
           B \<notin> set (stages_completed res) \<and>
           (if routable A wdef
            then A \<notin> set (stages_failed res) \<and>
                 (B \<in> set (stages_failed res) \<and>
                    (map_option status (tks B) = Some BLOCKED \<or>
                     map_option status (tks B) = Some PENDING \<and> B \<in> {IMPLEMENTATION, ARCHITECTURE})
                  \<or>
                  last (stages_failed res) \<in> fst ` set mid \<and>
                    B \<notin> set (stages_failed res) \<and>
                    map_option status (tks B) = Some PENDING)
            else stages_failed res = failed_stages st @ [A] \<and>
                 stages_completed res = completed_stages st \<and>
                 map_option status (tks A) = Some FAILED \<and>
                 map_option status (tks B) = Some PENDING)"
  using assms by (rule contract_violation_run)

theorem dependent_stage_after_contract_violation_witness:
  "run_workflow failing_orch ''Review the change'' (Some review_first_workflow) ''wf2'' \<noteq> None \<and>
   \<not> success (fst (the (run_workflow failing_orch ''Review the change''
                          (Some review_first_workflow) ''wf2''))) \<and>
   REVIEW \<notin> set (stages_failed (fst (the (run_workflow failing_orch ''Review the change''
                          (Some review_first_workflow) ''wf2'')))) \<and>
   BUILD_TEST \<in> set (stages_failed (fst (the (run_workflow failing_orch ''Review the change''
                          (Some review_first_workflow) ''wf2'')))) \<and>
   final_status (snd (the (run_workflow failing_orch ''Review the change''
                          (Some review_first_workflow) ''wf2''))) ''wf2'' BUILD_TEST = Some BLOCKED \<and>
   run_workflow failing_orch ''Review the change'' (Some review_detour_workflow) ''wf4'' \<noteq> None \<and>
   \<not> success (fst (the (run_workflow failing_orch ''Review the change''
                          (Some review_detour_workflow) ''wf4''))) \<and>
   REVIEW \<notin> set (stages_failed (fst (the (run_workflow failing_orch ''Review the change''
                          (Some review_detour_workflow) ''wf4'')))) \<and>
   BUILD_TEST \<notin> set (stages_completed (fst (the (run_workflow failing_orch ''Review the change''
                          (Some review_detour_workflow) ''wf4'')))) \<and>
   (BUILD_TEST \<in> set (stages_failed (fst (the (run_workflow failing_orch ''Review the change''
                          (Some review_detour_workflow) ''wf4'')))) \<and>
    final_status (snd (the (run_workflow failing_orch ''Review the change''
                          (Some review_detour_workflow) ''wf4''))) ''wf4'' BUILD_TEST = Some BLOCKED
    \<or>
    last (stages_failed (fst (the (run_workflow failing_orch ''Review the change''
                          (Some review_detour_workflow) ''wf4'')))) = IMPLEMENTATION \<and>
    final_status (snd (the (run_workflow failing_orch ''Review the change''
                          (Some review_detour_workflow) ''wf4''))) ''wf4'' BUILD_TEST = Some PENDING)"
proof -
  \<comment> \<open>The dependent stage directly after the failing one.\<close>
  have part1:
    "run_workflow failing_orch ''Review the change'' (Some review_first_workflow) ''wf2'' \<noteq> None \<and>
     \<not> success (fst (the (run_workflow failing_orch ''Review the change''
                            (Some review_first_workflow) ''wf2''))) \<and>
     REVIEW \<notin> set (stages_failed (fst (the (run_workflow failing_orch ''Review the change''
                            (Some review_first_workflow) ''wf2'')))) \<and>
     BUILD_TEST \<in> set (stages_failed (fst (the (run_workflow failing_orch ''Review the change''
                            (Some review_first_workflow) ''wf2'')))) \<and>
     final_status (snd (the (run_workflow failing_orch ''Review the change''
                            (Some review_first_workflow) ''wf2''))) ''wf2'' BUILD_TEST = Some BLOCKED"
  proof -
    let ?st0 = "initial_state failing_orch ''Review the change'' ''wf2'' review_first_workflow"
    have w: "review_first_workflow = [] @ (REVIEW, ''ReviewerAgent'', []) #
               [] @ (BUILD_TEST, ''BuildTestAgent'', [REVIEW]) #
               [(IMPLEMENTATION, ''ImplementationAgent'', [])]"
      by (simp add: review_first_workflow_def)
    have d: "distinct (map fst review_first_workflow)"
      by (simp add: review_first_workflow_def)
    have dep: "REVIEW \<in> set [REVIEW]" by simp
    have p: "run_stages failing_orch review_first_workflow ''wf2'' [] ?st0 = Some (False, ?st0)"
      by simp
    have m: "deps_met ''wf2'' (tasks ?st0) (map (task_key ''wf2'') []) review_first_workflow = Some True"
      by (simp add: review_first_workflow_def)
    from execute_bad_output[OF failing_orch_input_ok error_violation_has_error] obtain sto where
      e: "execute (returning_agent ''ReviewerAgent'' 7
                     (sample_output [error_violation ''REV-001'' ''Review output is invalid'']))
            (prepare_input failing_orch REVIEW (run_context ?st0) (outputs ?st0)) (run_stores ?st0)
          = (Inl (ContractViolationError (''Output contract violation: '' @
               py_list_repr (map message [error_violation ''REV-001'' ''Review output is invalid'']))), sto)"
      by blast
    have r: "routable REVIEW review_first_workflow"
      by (simp add: routable_def review_first_workflow_def)
    from dependent_stage_after_contract_violation[OF w d dep p m failing_orch_agents(2) e] r
    obtain res orch' tks where
      "run_workflow failing_orch ''Review the change'' (Some review_first_workflow) ''wf2''
         = Some (res, orch')"
      "active_workflows orch' ''wf2'' = Some tks" "\<not> success res"
      "REVIEW \<notin> set (stages_failed res)" "BUILD_TEST \<in> set (stages_failed res)"
      "map_option status (tks BUILD_TEST) = Some BLOCKED"
      by auto
    then show ?thesis by (simp add: final_status_def)
  qed
  \<comment> \<open>A stage between the failing one and the dependent one.\<close>
  have part2:
    "run_workflow failing_orch ''Review the change'' (Some review_detour_workflow) ''wf4'' \<noteq> None \<and>
     \<not> success (fst (the (run_workflow failing_orch ''Review the change''
                            (Some review_detour_workflow) ''wf4''))) \<and>
     REVIEW \<notin> set (stages_failed (fst (the (run_workflow failing_orch ''Review the change''
                            (Some review_detour_workflow) ''wf4'')))) \<and>
     BUILD_TEST \<notin> set (stages_completed (fst (the (run_workflow failing_orch ''Review the change''
                            (Some review_detour_workflow) ''wf4'')))) \<and>
     (BUILD_TEST \<in> set (stages_failed (fst (the (run_workflow failing_orch ''Review the change''
                            (Some review_detour_workflow) ''wf4'')))) \<and>
      final_status (snd (the (run_workflow failing_orch ''Review the change''
                            (Some review_detour_workflow) ''wf4''))) ''wf4'' BUILD_TEST = Some BLOCKED
      \<or>
      last (stages_failed (fst (the (run_workflow failing_orch ''Review the change''
                            (Some review_detour_workflow) ''wf4'')))) = IMPLEMENTATION \<and>
      final_status (snd (the (run_workflow failing_orch ''Review the change''
                            (Some review_detour_workflow) ''wf4''))) ''wf4'' BUILD_TEST = Some PENDING)"
  proof -
    let ?st0 = "initial_state failing_orch ''Review the change'' ''wf4'' review_detour_workflow"
    have w: "review_detour_workflow = [] @ (REVIEW, ''ReviewerAgent'', []) #
               [(IMPLEMENTATION, ''ProductAgent'', [])] @
               (BUILD_TEST, ''BuildTestAgent'', [REVIEW]) # []"
      by (simp add: review_detour_workflow_def)
    have d: "distinct (map fst review_detour_workflow)"
      by (simp add: review_detour_workflow_def)
    have dep: "REVIEW \<in> set [REVIEW]" by simp
    have p: "run_stages failing_orch review_detour_workflow ''wf4'' [] ?st0 = Some (False, ?st0)"
      by simp
    have m: "deps_met ''wf4'' (tasks ?st0) (map (task_key ''wf4'') []) review_detour_workflow = Some True"
      by (simp add: review_detour_workflow_def)
    from execute_bad_output[OF failing_orch_input_ok error_violation_has_error] obtain sto where
      e: "execute (returning_agent ''ReviewerAgent'' 7
                     (sample_output [error_violation ''REV-001'' ''Review output is invalid'']))
            (prepare_input failing_orch REVIEW (run_context ?st0) (outputs ?st0)) (run_stores ?st0)
          = (Inl (ContractViolationError (''Output contract violation: '' @
               py_list_repr (map message [error_violation ''REV-001'' ''Review output is invalid'']))), sto)"
      by blast
    have r: "routable REVIEW review_detour_workflow"
      by (simp add: routable_def review_detour_workflow_def)
    from dependent_stage_after_contract_violation[OF w d dep p m failing_orch_agents(2) e] r
    obtain res orch' tks where
      "run_workflow failing_orch ''Review the change'' (Some review_detour_workflow) ''wf4''
         = Some (res, orch')"
      "active_workflows orch' ''wf4'' = Some tks" "\<not> success res"
      "REVIEW \<notin> set (stages_failed res)" "BUILD_TEST \<notin> set (stages_completed res)"
      "BUILD_TEST \<in> set (stages_failed res) \<and> map_option status (tks BUILD_TEST) = Some BLOCKED \<or>
       last (stages_failed res) = IMPLEMENTATION \<and> map_option status (tks BUILD_TEST) = Some PENDING"
      by auto
    then show ?thesis by (auto simp: final_status_def)
  qed
  show ?thesis using part1 part2 by blast
qed

lemma run_of_two_stage_workflow:
  "\<exists>res orch' tks.
     run_workflow failing_orch ''Create a calculator'' (Some two_stage_workflow) ''wf1''
       = Some (res, orch') \<and>
     active_workflows orch' ''wf1'' = Some tks \<and> \<not> success res \<and>
     stages_failed res = [REQUIREMENTS] \<and> stages_completed res = [] \<and>
     map_option status (tks REQUIREMENTS) = Some FAILED \<and>
     map_option status (tks ARCHITECTURE) = Some PENDING"
proof -
  let ?st0 = "initial_state failing_orch ''Create a calculator'' ''wf1'' two_stage_workflow"
  let ?ag = "returning_agent ''ProductAgent'' 9
        (sample_output [error_violation ''REQ-001'' ''Requirements cannot be empty''])"
  have w: "two_stage_workflow = [] @ (REQUIREMENTS, ''ProductAgent'', []) #
             [] @ (ARCHITECTURE, ''ArchitectAgent'', [REQUIREMENTS]) # []"
    by (simp add: two_stage_workflow_def)
  have d: "distinct (map fst two_stage_workflow)"
    by (simp add: two_stage_workflow_def)
  have p: "run_stages failing_orch two_stage_workflow ''wf1'' [] ?st0 = Some (False, ?st0)"
    by simp
  have m: "deps_met ''wf1'' (tasks ?st0) (map (task_key ''wf1'') []) two_stage_workflow = Some True"
    by (simp add: two_stage_workflow_def)
  have a: "agents failing_orch ''ProductAgent'' = Some ?ag"
    by (simp add: failing_orch_def)
  have ok: "\<not> has_error (in_validate (prepare_input failing_orch REQUIREMENTS (run_context ?st0) (outputs ?st0)))"
    by (simp add: failing_orch_def sample_orch_def sample_input_def has_error_def)
  have bad: "has_error [error_violation ''REQ-001'' ''Requirements cannot be empty'']"
    by (simp add: has_error_def error_violation_def)
  from execute_bad_output[OF ok bad] obtain sto where
    e: "execute ?ag (prepare_input failing_orch REQUIREMENTS (run_context ?st0) (outputs ?st0))
          (run_stores ?st0)
        = (Inl (ContractViolationError (''Output contract violation: '' @
             py_list_repr (map message [error_violation ''REQ-001'' ''Requirements cannot be empty'']))), sto)"
    by blast
  have nr: "\<not> routable REQUIREMENTS two_stage_workflow"
    by (simp add: routable_def)
  have dep: "REQUIREMENTS \<in> set [REQUIREMENTS]" by simp
  from contract_violation_run[OF w d dep p m a e] nr
  obtain res orch' tks where
    "run_workflow failing_orch ''Create a calculator'' (Some two_stage_workflow) ''wf1''
       = Some (res, orch')"
    "active_workflows orch' ''wf1'' = Some tks" "\<not> success res"
    "stages_failed res = failed_stages ?st0 @ [REQUIREMENTS]"
    "stages_completed res = completed_stages ?st0"
    "map_option status (tks REQUIREMENTS) = Some FAILED"
    "map_option status (tks ARCHITECTURE) = Some PENDING"
    by auto
  then show ?thesis by simp
qed

text \<open>
  The claim C2 as it is written fails: in the workflow of requirements followed by
  architecture, which depends on it, a product agent whose output fails validation makes
  the run halt with \<^verbatim>\<open>stages_failed = [requirements]\<close>, and the task of architecture is
  left pending, not blocked.
\<close>

theorem dependent_stage_not_blocked_counterexample:
  "run_workflow failing_orch ''Create a calculator'' (Some two_stage_workflow) ''wf1'' \<noteq> None \<and>
   \<not> success (fst (the (run_workflow failing_orch ''Create a calculator''
                          (Some two_stage_workflow) ''wf1''))) \<and>
   stages_failed (fst (the (run_workflow failing_orch ''Create a calculator''
                          (Some two_stage_workflow) ''wf1''))) = [REQUIREMENTS] \<and>
   FAILURE_ROUTING REQUIREMENTS = None \<and>
   final_status (snd (the (run_workflow failing_orch ''Create a calculator''
                          (Some two_stage_workflow) ''wf1''))) ''wf1'' ARCHITECTURE = Some PENDING \<and>
   final_status (snd (the (run_workflow failing_orch ''Create a calculator''
                          (Some two_stage_workflow) ''wf1''))) ''wf1'' ARCHITECTURE \<noteq> Some BLOCKED"
proof -
  from run_of_two_stage_workflow obtain res orch' tks where
    "run_workflow failing_orch ''Create a calculator'' (Some two_stage_workflow) ''wf1''
       = Some (res, orch')"
    "active_workflows orch' ''wf1'' = Some tks" "\<not> success res"
    "stages_failed res = [REQUIREMENTS]"
    "map_option status (tks ARCHITECTURE) = Some PENDING"
    by blast
  then show ?thesis by (auto simp: final_status_def)
qed


end
